theory Spec2Isabelle
  imports Main "HOL-Library.Signed_Division" "HOL-Library.Word"
begin

section \<open>Shared DOM vocabulary\<close>

text \<open>
  The script manipulates elements through their class lists, attributes and a few
  page-level properties. A class list (DOMTokenList) is an ordered set of tokens.
  A dereference of a missing element (\<open>null.disabled = ...\<close>, \<open>undefined.offsetWidth\<close>)
  raises a TypeError, which the model returns as a value. \<open>NetworkError\<close> is the
  \<open>Error('Network error')\<close> with which the simulated call rejects.
\<close>

datatype js_error = TypeError | NetworkError

type_synonym classList = "string list"

definition cl_contains :: "string \<Rightarrow> classList \<Rightarrow> bool" where
  "cl_contains t cs = (t \<in> set cs)"

definition cl_add :: "string \<Rightarrow> classList \<Rightarrow> classList" where
  "cl_add t cs = (if t \<in> set cs then cs else cs @ [t])"

definition cl_remove :: "string \<Rightarrow> classList \<Rightarrow> classList" where
  "cl_remove t cs = removeAll t cs"

text \<open>\<open>classList.toggle(t)\<close> and \<open>classList.toggle(t, force)\<close>.\<close>

definition cl_toggle :: "string \<Rightarrow> classList \<Rightarrow> classList" where
  "cl_toggle t cs = (if t \<in> set cs then cl_remove t cs else cl_add t cs)"

definition cl_toggle_force :: "string \<Rightarrow> bool \<Rightarrow> classList \<Rightarrow> classList" where
  "cl_toggle_force t force cs = (if force then cl_add t cs else cl_remove t cs)"

text \<open>\<open>setAttribute(name, b)\<close> with a boolean stores its string form.\<close>

definition bool_str :: "bool \<Rightarrow> string" where
  "bool_str b = (if b then ''true'' else ''false'')"

section \<open>TestimonialCarousel\<close>

record slide =
  offsetWidth :: int
  ariaHidden :: "string option"
  hasContent :: bool
  contentTabindex :: "string option"

record dot =
  dot_classes :: classList
  dot_label :: nat
  ariaCurrent :: "string option"

text \<open>
  The track carries the offset written into \<open>translateX(-<offset>px)\<close>. The record
  \<open>carousel\<close> holds the instance fields together with the two fields of the global
  \<open>state\<close> that the carousel owns: \<open>currentTestimonial\<close> and \<open>carouselInterval\<close>
  (whether a timer is installed).
\<close>

record track_el =
  translateX :: "int option"

record carousel =
  track :: "track_el option"
  slides :: "slide list"
  dotsContainer :: bool
  dots :: "dot list"
  currentTestimonial :: int
  carouselInterval :: bool

definition updateDots :: "carousel \<Rightarrow> carousel" where
  "updateDots c =
     c\<lparr>dots := map (\<lambda>(index, d).
          d\<lparr>dot_classes := cl_toggle_force ''active'' (int index = currentTestimonial c) (dot_classes d),
            ariaCurrent := Some (bool_str (int index = currentTestimonial c))\<rparr>)
        (enumerate 0 (dots c))\<rparr>"

definition goToSlide :: "int \<Rightarrow> carousel \<Rightarrow> js_error + carousel" where
  "goToSlide index0 c =
     (let n = int (length (slides c));
          index1 = (if index0 < 0 then n - 1 else index0);
          index = (if index1 \<ge> n then 0 else index1)
      in case slides c of
           [] \<Rightarrow> Inl TypeError
         | s0 # _ \<Rightarrow>
             (let slideWidth = offsetWidth s0;
                  c1 = c\<lparr>track := map_option (\<lambda>t. t\<lparr>translateX := Some (index * slideWidth)\<rparr>) (track c)\<rparr>;
                  c2 = c1\<lparr>currentTestimonial := index\<rparr>;
                  c3 = updateDots c2
              in Inr (c3\<lparr>slides := map (\<lambda>(i, s).
                     s\<lparr>ariaHidden := Some (bool_str (int i \<noteq> index)),
                       contentTabindex := (if hasContent s
                          then Some (if int i = index then ''0'' else ''-1'')
                          else contentTabindex s)\<rparr>)
                   (enumerate 0 (slides c3))\<rparr>)))"

definition "next" :: "carousel \<Rightarrow> js_error + carousel" where
  "next c = goToSlide (currentTestimonial c + 1) c"

definition prev :: "carousel \<Rightarrow> js_error + carousel" where
  "prev c = goToSlide (currentTestimonial c - 1) c"

definition stopAutoAdvance :: "carousel \<Rightarrow> carousel" where
  "stopAutoAdvance c = (if carouselInterval c then c\<lparr>carouselInterval := False\<rparr> else c)"

definition startAutoAdvance :: "carousel \<Rightarrow> carousel" where
  "startAutoAdvance c = (stopAutoAdvance c)\<lparr>carouselInterval := True\<rparr>"

text \<open>
  \<open>createDots\<close> appends one button per slide to the dots container, wires its click to
  \<open>goToSlide(index)\<close>, and ends with \<open>updateDots\<close>; without a container it returns at once.
\<close>

definition createDots :: "carousel \<Rightarrow> carousel" where
  "createDots c =
     (if \<not> dotsContainer c then c
      else updateDots (c\<lparr>dots := dots c @ map (\<lambda>index.
             \<lparr>dot_classes = [''carousel-dot''], dot_label = index + 1, ariaCurrent = None\<rparr>)
             [0..<length (slides c)]\<rparr>))"

definition dotClick :: "nat \<Rightarrow> carousel \<Rightarrow> js_error + carousel" where
  "dotClick index c = goToSlide (int index) c"

text \<open>The constructor: \<open>init\<close> runs only when there is more than one slide.\<close>

definition newCarousel :: "track_el option \<Rightarrow> slide list \<Rightarrow> bool \<Rightarrow> int \<Rightarrow> carousel" where
  "newCarousel tr ss container cur =
     (let c = \<lparr>track = tr, slides = ss, dotsContainer = container, dots = [],
                currentTestimonial = cur, carouselInterval = False\<rparr>
      in if length ss > 1 then startAutoAdvance (createDots c) else c)"

subsection \<open>Swipe support\<close>

text \<open>
  The closure variables of \<open>addSwipeSupport\<close>. Each handler receives the event's
  \<open>pageX\<close>; the handlers are installed only when the track exists.
\<close>

record swipe =
  startX :: int
  currentX :: int

definition handleStart :: "int \<Rightarrow> carousel \<times> swipe \<Rightarrow> carousel \<times> swipe" where
  "handleStart pageX cg = (case cg of (c, g) \<Rightarrow> (stopAutoAdvance c, g\<lparr>startX := pageX\<rparr>))"

definition handleMove :: "int \<Rightarrow> carousel \<times> swipe \<Rightarrow> carousel \<times> swipe" where
  "handleMove pageX cg =
     (case cg of (c, g) \<Rightarrow> if startX g = 0 then (c, g) else (c, g\<lparr>currentX := pageX\<rparr>))"

definition threshold :: int where
  "threshold = 50"

definition handleEnd :: "carousel \<times> swipe \<Rightarrow> js_error + carousel \<times> swipe" where
  "handleEnd cg =
     (case cg of (c, g) \<Rightarrow>
        if startX g = 0 then Inr (c, g)
        else
          (let diff = startX g - currentX g;
               r = (if \<bar>diff\<bar> > threshold
                    then (if diff > 0 then next c else prev c)
                    else Inr c)
           in case r of
                Inl e \<Rightarrow> Inl e
              | Inr c' \<Rightarrow> Inr (startAutoAdvance c', g\<lparr>startX := 0, currentX := 0\<rparr>)))"

text \<open>
  The index formula of the specification, \<open>((k % N) + N) % N\<close>, with JavaScript's
  remainder, which truncates towards zero (\<open>smod\<close> on \<open>int\<close>).
\<close>

definition spec_wrap_index :: "int \<Rightarrow> int \<Rightarrow> int" where
  "spec_wrap_index k n = ((k smod n) + n) smod n"

section \<open>Page-level state shared by the components\<close>

text \<open>
  \<open>document.body.style.overflow\<close> and \<open>document.activeElement\<close>. Calling \<open>focus()\<close>
  on an element is modelled as making it the active element.
\<close>

datatype focus_target =
  FirstNavLink | HamburgerBtn | ModalCloseBtn | ViewBtn nat | FormField nat | Elsewhere

record page =
  bodyOverflow :: string
  activeElement :: focus_target

section \<open>Toast\<close>

record toast_el =
  toast_classes :: classList
  textContent :: string
  ariaLive :: "string option"
  role :: "string option"

record toast =
  element :: "toast_el option"
  timeout :: bool

definition toast_hide :: "toast \<Rightarrow> toast" where
  "toast_hide t =
     (case element t of
        None \<Rightarrow> t
      | Some e \<Rightarrow> t\<lparr>element := Some (e\<lparr>toast_classes :=
          cl_remove ''toast-warning'' (cl_remove ''toast-error''
            (cl_remove ''toast-success'' (cl_remove ''show'' (toast_classes e))))\<rparr>)\<rparr>)"

text \<open>
  \<open>show\<close> is modelled for a \<open>type\<close> that is a class token, as the two call sites pass
  it (\<open>success\<close> and \<open>error\<close>); \<open>classList.add\<close> raises on a token with white space.
\<close>

definition toast_show :: "string \<Rightarrow> string \<Rightarrow> toast \<Rightarrow> toast" where
  "toast_show message type t =
     (case element t of
        None \<Rightarrow> t
      | Some _ \<Rightarrow>
          (let t1 = (toast_hide t)\<lparr>timeout := False\<rparr>
           in case element t1 of
                None \<Rightarrow> t1
              | Some e \<Rightarrow>
                  t1\<lparr>element := Some (e\<lparr>
                        toast_classes := cl_add (''toast-'' @ type) (cl_add ''show'' [''toast'']),
                        textContent := message,
                        ariaLive := Some ''polite'',
                        role := Some ''status''\<rparr>),
                     timeout := True\<rparr>))"

section \<open>SidebarManager\<close>

text \<open>
  The instance fields, the global \<open>state.isMobile\<close>, whether the sidebar contains a
  \<open>.nav-link\<close> to focus, and the page.
\<close>

record sidebar_mgr =
  sidebar :: "classList option"
  hamburger :: "classList option"
  overlay :: "classList option"
  isOpen :: bool
  isMobile :: bool
  hasNavLink :: bool
  sb_page :: page

text \<open>
  \<open>SidebarManager.open\<close> and \<open>SidebarManager.close\<close>; the prefix tells them from the
  methods of the same names in \<open>ImageModal\<close>.
\<close>

definition sb_open :: "sidebar_mgr \<Rightarrow> sidebar_mgr" where
  "sb_open s =
     (if sidebar s = None \<or> overlay s = None then s
      else s\<lparr>sidebar := map_option (cl_add ''sidebar-expanded'') (sidebar s),
             overlay := map_option (cl_add ''active'') (overlay s),
             hamburger := map_option (cl_add ''active'') (hamburger s),
             isOpen := True,
             sb_page := (sb_page s)\<lparr>bodyOverflow := ''hidden'',
                activeElement := (if hasNavLink s then FirstNavLink
                                  else activeElement (sb_page s))\<rparr>\<rparr>)"

definition sb_close :: "sidebar_mgr \<Rightarrow> sidebar_mgr" where
  "sb_close s =
     (if sidebar s = None \<or> overlay s = None then s
      else s\<lparr>sidebar := map_option (cl_remove ''sidebar-expanded'') (sidebar s),
             overlay := map_option (cl_remove ''active'') (overlay s),
             hamburger := map_option (cl_remove ''active'') (hamburger s),
             isOpen := False,
             sb_page := (sb_page s)\<lparr>bodyOverflow := [],
                activeElement := (if hamburger s \<noteq> None then HamburgerBtn
                                  else activeElement (sb_page s))\<rparr>\<rparr>)"

definition toggleDesktop :: "sidebar_mgr \<Rightarrow> sidebar_mgr" where
  "toggleDesktop s =
     (if sidebar s = None then s
      else s\<lparr>sidebar := map_option (cl_toggle ''collapsed'') (sidebar s)\<rparr>)"

definition toggle :: "sidebar_mgr \<Rightarrow> sidebar_mgr" where
  "toggle s =
     (if isMobile s then (if isOpen s then sb_close s else sb_open s)
      else toggleDesktop s)"

definition openSidebar :: "sidebar_mgr \<Rightarrow> sidebar_mgr" where
  "openSidebar s =
     (if sidebar s = None then s
      else (let s1 = s\<lparr>sidebar := map_option (cl_remove ''collapsed'') (sidebar s)\<rparr>
            in if isMobile s1
               then s1\<lparr>sidebar := map_option (cl_add ''sidebar-expanded'') (sidebar s1)\<rparr>
               else s1))"

definition closeSidebar :: "sidebar_mgr \<Rightarrow> sidebar_mgr" where
  "closeSidebar s =
     (if sidebar s = None then s
      else s\<lparr>sidebar := map_option (\<lambda>cs. cl_remove ''sidebar-expanded'' (cl_add ''collapsed'' cs))
                           (sidebar s)\<rparr>)"

definition setInitialState :: "sidebar_mgr \<Rightarrow> sidebar_mgr" where
  "setInitialState s = (if isMobile s then closeSidebar s else openSidebar s)"

text \<open>The constructor of \<open>SidebarManager\<close>: \<open>isOpen\<close> starts false, then \<open>setInitialState\<close>.\<close>

definition newSidebarManager ::
  "classList option \<Rightarrow> classList option \<Rightarrow> classList option \<Rightarrow> bool \<Rightarrow> bool \<Rightarrow> page \<Rightarrow> sidebar_mgr" where
  "newSidebarManager sb hb ov mobile navLink pg =
     setInitialState \<lparr>sidebar = sb, hamburger = hb, overlay = ov, isOpen = False,
        isMobile = mobile, hasNavLink = navLink, sb_page = pg\<rparr>"

text \<open>The body of the debounced resize callback, given \<open>window.innerWidth\<close>.\<close>

definition handleResize :: "int \<Rightarrow> sidebar_mgr \<Rightarrow> sidebar_mgr" where
  "handleResize innerWidth s =
     (let s1 = s\<lparr>isMobile := (innerWidth < 768)\<rparr>;
          s2 = (if isMobile s1 \<and> isOpen s1 then sb_close s1 else s1)
      in if \<not> isMobile s2
         then s2\<lparr>overlay := map_option (cl_remove ''active'') (overlay s2),
                 isOpen := False,
                 sb_page := (sb_page s2)\<lparr>bodyOverflow := []\<rparr>\<rparr>
         else s2)"

text \<open>The sidebar's collapsed marker, as the desktop toggle reads and writes it.\<close>

definition collapsed :: "sidebar_mgr \<Rightarrow> bool" where
  "collapsed s = (case sidebar s of None \<Rightarrow> False | Some cs \<Rightarrow> cl_contains ''collapsed'' cs)"

section \<open>ImageModal\<close>

record view_btn =
  dataImage :: "string option"
  dataAlt :: "string option"

datatype modal_markup =
  Markup string | LoadingPlaceholder | Img string string | LoadFailedIndicator

text \<open>
  \<open>modalContent\<close> and \<open>modalClose\<close> are looked up inside the modal root, so they can be
  present only when the root is. \<open>loadingImg\<close> is the image object (source, alt text)
  that the latest \<open>open\<close> constructed.
\<close>

record image_modal =
  modal :: "classList option"
  modalContent :: "modal_markup option"
  modalClose :: bool
  loadingImg :: "(string \<times> string) option"
  m_page :: page

text \<open>
  \<open>ImageModal.open\<close>. An absent and an empty \<open>data-image\<close> are both falsy, and an absent
  or empty \<open>data-alt\<close> gives the default alt text.
\<close>

definition the_default :: "'a \<Rightarrow> 'a option \<Rightarrow> 'a" where
  "the_default d x = (case x of None \<Rightarrow> d | Some v \<Rightarrow> v)"

definition modal_open :: "view_btn \<Rightarrow> image_modal \<Rightarrow> image_modal" where
  "modal_open button m =
     (let imgSrc = dataImage button;
          imgAlt = (case dataAlt button of
                      None \<Rightarrow> ''Portfolio Image''
                    | Some a \<Rightarrow> if a = [] then ''Portfolio Image'' else a)
      in if imgSrc = None \<or> imgSrc = Some [] \<or> modalContent m = None then m
         else m\<lparr>modalContent := Some LoadingPlaceholder,
                loadingImg := Some (the_default [] imgSrc, imgAlt),
                modal := map_option (cl_add ''open'') (modal m),
                m_page := (m_page m)\<lparr>bodyOverflow := ''hidden'',
                   activeElement := (if modalClose m then ModalCloseBtn
                                     else activeElement (m_page m))\<rparr>\<rparr>)"

text \<open>The image's \<open>onload\<close> and \<open>onerror\<close> callbacks, for the image created by \<open>open\<close>.\<close>

definition img_onload :: "string \<Rightarrow> string \<Rightarrow> image_modal \<Rightarrow> js_error + image_modal" where
  "img_onload src alt m =
     (case modalContent m of
        None \<Rightarrow> Inl TypeError
      | Some _ \<Rightarrow> Inr (m\<lparr>modalContent := Some (Img src alt)\<rparr>))"

definition img_onerror :: "image_modal \<Rightarrow> js_error + image_modal" where
  "img_onerror m =
     (case modalContent m of
        None \<Rightarrow> Inl TypeError
      | Some _ \<Rightarrow> Inr (m\<lparr>modalContent := Some LoadFailedIndicator\<rparr>))"

definition modal_close :: "image_modal \<Rightarrow> image_modal" where
  "modal_close m =
     m\<lparr>modal := map_option (cl_remove ''open'') (modal m),
       m_page := (m_page m)\<lparr>bodyOverflow := []\<rparr>\<rparr>"

section \<open>ContactForm\<close>

subsection \<open>Strings and the email pattern\<close>

text \<open>
  A field value is a JavaScript string: a sequence of UTF-16 code units. \<open>js\<close> embeds an
  ASCII literal. \<open>isWhiteSpace\<close> is the set that both \<open>\s\<close> and \<open>String.prototype.trim\<close>
  use: white space and line terminators.
\<close>

type_synonym jsstring = "16 word list"

definition js :: "string \<Rightarrow> jsstring" where
  "js s = map of_char s"

definition isWhiteSpace :: "16 word \<Rightarrow> bool" where
  "isWhiteSpace c =
     (c = 0x09 \<or> c = 0x0A \<or> c = 0x0B \<or> c = 0x0C \<or> c = 0x0D \<or> c = 0x20 \<or> c = 0xA0 \<or>
      c = 0x1680 \<or> (0x2000 \<le> c \<and> c \<le> 0x200A) \<or> c = 0x2028 \<or> c = 0x2029 \<or>
      c = 0x202F \<or> c = 0x205F \<or> c = 0x3000 \<or> c = 0xFEFF)"

definition trim :: "jsstring \<Rightarrow> jsstring" where
  "trim s = rev (dropWhile isWhiteSpace (rev (dropWhile isWhiteSpace s)))"

text \<open>
  The pattern \<open>/^[^\s@]+@[^\s@]+\.[^\s@]+$/\<close> is a sequence of character classes, each
  taken once or one or more times, anchored at both ends. \<open>regex_test\<close> is a backtracking
  matcher for such sequences: at a \<open>+\<close> it tries to take more before it tries to go on.
\<close>

datatype quantifier = Once | OneOrMore

type_synonym regex = "((16 word \<Rightarrow> bool) \<times> quantifier) list"

fun regex_test :: "regex \<Rightarrow> jsstring \<Rightarrow> bool" where
  "regex_test [] s = (s = [])"
| "regex_test ((cls, q) # r) [] = False"
| "regex_test ((cls, Once) # r) (c # s) = (cls c \<and> regex_test r s)"
| "regex_test ((cls, OneOrMore) # r) (c # s) =
     (cls c \<and> (regex_test ((cls, OneOrMore) # r) s \<or> regex_test r s))"

definition notSpaceAt :: "16 word \<Rightarrow> bool" where
  "notSpaceAt c = (\<not> isWhiteSpace c \<and> c \<noteq> 0x40)"

definition emailRegex :: regex where
  "emailRegex =
     [(notSpaceAt, OneOrMore), (\<lambda>c. c = 0x40, Once), (notSpaceAt, OneOrMore),
      (\<lambda>c. c = 0x2E, Once), (notSpaceAt, OneOrMore)]"

definition isValidEmail :: "jsstring \<Rightarrow> bool" where
  "isValidEmail email = regex_test emailRegex email"

subsection \<open>Fields and validation\<close>

text \<open>
  A field is an \<open>input\<close> or \<open>textarea\<close> of the form. Error messages are \<open>.field-error\<close>
  elements appended to the field's parent node; \<open>fieldErrors\<close> gives, for each parent
  node, the texts of the error elements in it, in document order. \<open>submissions\<close> counts
  the calls of \<open>submitForm\<close>.
\<close>

record field =
  f_type :: string
  f_required :: bool
  f_value :: jsstring
  f_defaultValue :: jsstring
  f_parent :: nat
  f_classes :: classList
  f_ariaInvalid :: "string option"
  f_ariaRequired :: "string option"

record button =
  disabled :: bool
  btn_classes :: classList
  innerHTML :: string

record contact_form =
  formFields :: "field list"
  fieldErrors :: "nat \<Rightarrow> string list"
  submitButton :: "button option"
  resetButton :: "button option"
  submissions :: nat
  cf_toast :: toast
  cf_page :: page

text \<open>
  The error elements are modelled for fields whose parent nodes are not nested in one
  another, so that \<open>parentNode.querySelector\<close> finds only the parent's own messages.
\<close>

definition setFieldValidity :: "nat \<Rightarrow> bool \<Rightarrow> string \<Rightarrow> contact_form \<Rightarrow> contact_form" where
  "setFieldValidity i isValid message cf =
     (let f = formFields cf ! i;
          p = f_parent f;
          f1 = f\<lparr>f_ariaInvalid := Some (bool_str (\<not> isValid))\<rparr>;
          errs1 = (case fieldErrors cf p of [] \<Rightarrow> [] | _ # rest \<Rightarrow> rest);
          errs2 = (if \<not> isValid \<and> message \<noteq> [] then errs1 @ [message] else errs1);
          f2 = f1\<lparr>f_classes := cl_toggle_force ''error'' (\<not> isValid) (f_classes f1)\<rparr>
      in cf\<lparr>formFields := (formFields cf)[i := f2], fieldErrors := (fieldErrors cf)(p := errs2)\<rparr>)"

definition fieldCheck :: "field \<Rightarrow> bool \<times> string" where
  "fieldCheck f =
     (let v = trim (f_value f)
      in if f_type f = ''email''
         then (let isValid = isValidEmail v
               in (isValid, if isValid then [] else ''Please enter a valid email address''))
         else if f_required f \<and> v = [] then (False, ''This field is required'')
         else (True, []))"

definition validateField :: "nat \<Rightarrow> contact_form \<Rightarrow> bool \<times> contact_form" where
  "validateField i cf =
     (case fieldCheck (formFields cf ! i) of
        (isValid, message) \<Rightarrow> (isValid, setFieldValidity i isValid message cf))"

definition clearFieldError :: "nat \<Rightarrow> contact_form \<Rightarrow> contact_form" where
  "clearFieldError i cf =
     (let f = formFields cf ! i;
          p = f_parent f;
          f1 = f\<lparr>f_classes := cl_remove ''error'' (f_classes f), f_ariaInvalid := None\<rparr>
      in cf\<lparr>formFields := (formFields cf)[i := f1],
            fieldErrors := (fieldErrors cf)(p := (case fieldErrors cf p of [] \<Rightarrow> [] | _ # rest \<Rightarrow> rest))\<rparr>)"

definition sendingLabel :: string where
  \<open>sendingLabel = ''<i class="fas fa-spinner fa-spin"></i> Sending...''\<close>

definition idleLabel :: string where
  \<open>idleLabel = ''<i class="fa fa-paper-plane"></i> Send Message''\<close>

text \<open>
  \<open>setFormState\<close> dereferences both buttons without a check; a missing button raises after
  the assignments made so far. The result is the raised error, if any, and the state.
\<close>

definition setFormState :: "string \<Rightarrow> contact_form \<Rightarrow> js_error option \<times> contact_form" where
  "setFormState st cf =
     (case submitButton cf of
        None \<Rightarrow> (Some TypeError, cf)
      | Some sb \<Rightarrow>
          (let loading = (st = ''loading'');
               cf1 = cf\<lparr>submitButton := Some (sb\<lparr>disabled := loading\<rparr>)\<rparr>
           in case resetButton cf1 of
                None \<Rightarrow> (Some TypeError, cf1)
              | Some rb \<Rightarrow>
                  (None, cf1\<lparr>resetButton := Some (rb\<lparr>disabled := loading\<rparr>),
                    submitButton := Some (sb\<lparr>disabled := loading,
                      btn_classes := (if loading then cl_add ''loading'' (btn_classes sb)
                                      else cl_remove ''loading'' (btn_classes sb)),
                      innerHTML := (if loading
                        then sendingLabel
                        else idleLabel)\<rparr>)\<rparr>)))"

definition form_reset :: "contact_form \<Rightarrow> contact_form" where
  "form_reset cf = cf\<lparr>formFields := map (\<lambda>f. f\<lparr>f_value := f_defaultValue f\<rparr>) (formFields cf)\<rparr>"

text \<open>The \<open>forEach\<close> of \<open>handleSubmit\<close>: validate every field in order.\<close>

fun validateAll :: "nat list \<Rightarrow> bool \<Rightarrow> contact_form \<Rightarrow> bool \<times> contact_form" where
  "validateAll [] isFormValid cf = (isFormValid, cf)"
| "validateAll (i # is) isFormValid cf =
     (case validateField i cf of
        (ok, cf') \<Rightarrow> validateAll is (if \<not> ok then False else isFormValid) cf')"

fun firstInvalid :: "field list \<Rightarrow> nat \<Rightarrow> nat option" where
  "firstInvalid [] i = None"
| "firstInvalid (f # fs) i =
     (if f_ariaInvalid f = Some ''true'' then Some i else firstInvalid fs (Suc i))"

text \<open>
  \<open>handleSubmit\<close>, with the outcome of the simulated call (\<open>Math.random() > 0.2\<close>) as the
  argument \<open>callSucceeds\<close>. The result is the error with which the handler's promise is
  rejected, if any, and the state when the handler has finished.
\<close>

definition handleSubmit :: "bool \<Rightarrow> contact_form \<Rightarrow> js_error option \<times> contact_form" where
  "handleSubmit callSucceeds cf =
     (case validateAll [0..<length (formFields cf)] True cf of
        (isFormValid, cf1) \<Rightarrow>
          if \<not> isFormValid
          then (let cf2 = cf1\<lparr>cf_toast := toast_show ''Please fix the errors in the form'' ''error'' (cf_toast cf1)\<rparr>
                in (None, case firstInvalid (formFields cf2) 0 of
                            None \<Rightarrow> cf2
                          | Some i \<Rightarrow> cf2\<lparr>cf_page := (cf_page cf2)\<lparr>activeElement := FormField i\<rparr>\<rparr>))
          else
            (let tried =
                   (case setFormState ''loading'' cf1 of
                      (Some e, cf2) \<Rightarrow> (Some e, cf2)
                    | (None, cf2) \<Rightarrow>
                        (let cf3 = cf2\<lparr>submissions := submissions cf2 + 1\<rparr>
                         in if callSucceeds
                            then (None, (form_reset cf3)\<lparr>cf_toast :=
                                    toast_show ''Message sent successfully! I will get back to you soon.''
                                      ''success'' (cf_toast cf3)\<rparr>)
                            else (Some NetworkError, cf3)));
                 caught =
                   (case tried of
                      (None, cf4) \<Rightarrow> cf4
                    | (Some e, cf4) \<Rightarrow> cf4\<lparr>cf_toast :=
                        toast_show ''Failed to send message. Please try again.'' ''error'' (cf_toast cf4)\<rparr>)
             in setFormState ''idle'' caught))"

section \<open>TabManager\<close>

text \<open>
  \<open>activateTab\<close> receives the clicked link and the two node lists of its group, and looks
  the pane up in the whole document by identifier. The document is the list of its
  elements in document order; a node is referred to by its position. An element whose
  \<open>id\<close> attribute is absent has \<open>el_id = None\<close>.
\<close>

record element =
  el_id :: "string option"
  el_classes :: classList
  el_attrs :: "string \<Rightarrow> string option"

type_synonym document = "element list"

definition upd :: "nat \<Rightarrow> ('a \<Rightarrow> 'a) \<Rightarrow> 'a list \<Rightarrow> 'a list" where
  "upd i f xs = xs[i := f (xs ! i)]"

text \<open>
  \<open>document.getElementById\<close>: the first element in document order with that identifier;
  the empty string identifies nothing.
\<close>

definition getElementById :: "document \<Rightarrow> string \<Rightarrow> nat option" where
  "getElementById doc key =
     (if key = [] then None
      else case filter (\<lambda>i. el_id (doc ! i) = Some key) [0..<length doc] of
             [] \<Rightarrow> None
           | i # _ \<Rightarrow> Some i)"

text \<open>
  \<open>getAttribute\<close> gives \<open>null\<close> for a missing attribute, and \<open>getElementById(null)\<close>
  looks up the string \<open>null\<close>.
\<close>

definition targetId :: "document \<Rightarrow> nat \<Rightarrow> string \<Rightarrow> string" where
  "targetId doc activeLink dataAttribute =
     (case el_attrs (doc ! activeLink) dataAttribute of None \<Rightarrow> ''null'' | Some v \<Rightarrow> v)"

definition removeActive :: "element \<Rightarrow> element" where
  "removeActive e = e\<lparr>el_classes := cl_remove ''active'' (el_classes e)\<rparr>"

definition addActive :: "element \<Rightarrow> element" where
  "addActive e = e\<lparr>el_classes := cl_add ''active'' (el_classes e)\<rparr>"

definition setAriaHidden :: "string \<Rightarrow> element \<Rightarrow> element" where
  "setAriaHidden v e = e\<lparr>el_attrs := (el_attrs e)(''aria-hidden'' \<mapsto> v)\<rparr>"

definition activateTab :: "nat \<Rightarrow> nat list \<Rightarrow> nat list \<Rightarrow> string \<Rightarrow> document \<Rightarrow> document" where
  "activateTab activeLink allLinks allPanes dataAttribute doc =
     (let d1 = fold (\<lambda>tab. upd tab removeActive) allLinks doc;
          d2 = upd activeLink addActive d1;
          d3 = fold (\<lambda>pane. upd pane removeActive) allPanes d2;
          activePane = getElementById d3 (targetId d3 activeLink dataAttribute)
      in case activePane of
           None \<Rightarrow> d3
         | Some p \<Rightarrow>
             (let d4 = upd p addActive d3;
                  d5 = upd p (setAriaHidden ''false'') d4
              in fold (\<lambda>pane d. if pane \<noteq> p then upd pane (setAriaHidden ''true'') d else d)
                   allPanes d5))"

definition isActive :: "document \<Rightarrow> nat \<Rightarrow> bool" where
  "isActive doc i = cl_contains ''active'' (el_classes (doc ! i))"

text \<open>
  A tab group as \<open>initPortfolioTabs\<close> and \<open>initBrandingTabs\<close> pass it: two node lists of
  the document (each without repetition, as \<open>querySelectorAll\<close> returns them) with no
  element in both, and the clicked link one of the group's links.
\<close>

definition tabGroup :: "document \<Rightarrow> nat \<Rightarrow> nat list \<Rightarrow> nat list \<Rightarrow> bool" where
  "tabGroup doc activeLink allLinks allPanes =
     (list_all (\<lambda>i. i < length doc) allLinks \<and> list_all (\<lambda>i. i < length doc) allPanes \<and>
      distinct allLinks \<and> distinct allPanes \<and>
      list_all (\<lambda>i. i \<notin> set allPanes) allLinks \<and> activeLink \<in> set allLinks)"

text \<open>
  Identifiers are non-empty and unique in the document, as HTML requires of \<open>id\<close>
  attributes.
\<close>

definition validIds :: "document \<Rightarrow> bool" where
  "validIds doc =
     (\<forall>i\<in>set [0..<length doc]. el_id (doc ! i) \<noteq> Some [] \<and>
        (\<forall>j\<in>set [0..<length doc].
           el_id (doc ! i) \<noteq> None \<and> el_id (doc ! i) = el_id (doc ! j) \<longrightarrow> i = j))"

text \<open>The links and the panes of a group that carry the class \<open>active\<close>.\<close>

definition activeOf :: "document \<Rightarrow> nat list \<Rightarrow> nat list" where
  "activeOf doc nodes = filter (isActive doc) nodes"

text \<open>The identifier that \<open>activateTab\<close> looks up in the document it was given.\<close>

definition lookupPane :: "document \<Rightarrow> nat \<Rightarrow> string \<Rightarrow> nat option" where
  "lookupPane doc activeLink dataAttribute =
     getElementById doc (targetId doc activeLink dataAttribute)"

section \<open>Observations used in the statements\<close>

text \<open>A call returns normally with a state that satisfies \<open>P\<close>.\<close>

definition returns :: "('a \<Rightarrow> bool) \<Rightarrow> js_error + 'a \<Rightarrow> bool" where
  "returns P r = (case r of Inl _ \<Rightarrow> False | Inr x \<Rightarrow> P x)"

definition indexAfter :: "js_error + carousel \<Rightarrow> int option" where
  "indexAfter r = (case r of Inl _ \<Rightarrow> None | Inr c \<Rightarrow> Some (currentTestimonial c))"

definition swipeIndex :: "js_error + carousel \<times> swipe \<Rightarrow> int option" where
  "swipeIndex r = (case r of Inl _ \<Rightarrow> None | Inr cg \<Rightarrow> Some (currentTestimonial (fst cg)))"

text \<open>The displacement that \<open>handleEnd\<close> computes on release.\<close>

definition swipeDelta :: "swipe \<Rightarrow> int" where
  "swipeDelta g = startX g - currentX g"

definition indexInRange :: "carousel \<Rightarrow> bool" where
  "indexInRange c = (0 \<le> currentTestimonial c \<and> currentTestimonial c < int (length (slides c)))"

text \<open>The positions of the dots that carry the class \<open>active\<close>.\<close>

definition activeDots :: "carousel \<Rightarrow> nat list" where
  "activeDots c = filter (\<lambda>i. cl_contains ''active'' (dot_classes (dots c ! i))) [0..<length (dots c)]"

definition dotMatchesIndex :: "carousel \<Rightarrow> bool" where
  "dotMatchesIndex c = (0 \<le> currentTestimonial c \<and> activeDots c = [nat (currentTestimonial c)])"

text \<open>The class markers of the mobile overlay state.\<close>

definition sidebarExpanded :: "sidebar_mgr \<Rightarrow> bool" where
  "sidebarExpanded s =
     (case sidebar s of None \<Rightarrow> False | Some cs \<Rightarrow> cl_contains ''sidebar-expanded'' cs)"

definition overlayActive :: "sidebar_mgr \<Rightarrow> bool" where
  "overlayActive s = (case overlay s of None \<Rightarrow> False | Some cs \<Rightarrow> cl_contains ''active'' cs)"

text \<open>The part of a string after its first \<open>@\<close>.\<close>

definition afterAt :: "jsstring \<Rightarrow> jsstring" where
  "afterAt s = tl (dropWhile (\<lambda>c. c \<noteq> 0x40) s)"

text \<open>
  What \<open>validateField\<close> never changes: a field's type, required flag, value and
  default value, the buttons, the toast and the page.
\<close>

definition fieldCore :: "field \<Rightarrow> string \<times> bool \<times> jsstring \<times> jsstring" where
  "fieldCore f = (f_type f, f_required f, f_value f, f_defaultValue f)"

definition sameForm :: "contact_form \<Rightarrow> contact_form \<Rightarrow> bool" where
  "sameForm cf cf' =
     (map fieldCore (formFields cf') = map fieldCore (formFields cf) \<and>
      submitButton cf' = submitButton cf \<and> resetButton cf' = resetButton cf \<and>
      submissions cf' = submissions cf \<and> cf_toast cf' = cf_toast cf \<and> cf_page cf' = cf_page cf)"

definition allFieldsValid :: "contact_form \<Rightarrow> bool" where
  "allFieldsValid cf = list_all (\<lambda>f. fst (fieldCheck f)) (formFields cf)"

definition toastShows :: "string \<Rightarrow> string \<Rightarrow> toast \<Rightarrow> bool" where
  "toastShows message cls t =
     (case element t of
        None \<Rightarrow> False
      | Some e \<Rightarrow> textContent e = message \<and> cl_contains ''show'' (toast_classes e) \<and>
                  cl_contains cls (toast_classes e))"

definition controlsIdle :: "contact_form \<Rightarrow> bool" where
  "controlsIdle cf =
     (case (submitButton cf, resetButton cf) of
        (Some sb, Some rb) \<Rightarrow>
          \<not> disabled sb \<and> \<not> disabled rb \<and> innerHTML sb = idleLabel \<and>
          \<not> cl_contains ''loading'' (btn_classes sb)
      | _ \<Rightarrow> False)"

definition successOutcome :: "contact_form \<Rightarrow> contact_form \<Rightarrow> bool" where
  "successOutcome cf cf' =
     (map f_value (formFields cf') = map f_defaultValue (formFields cf) \<and>
      toastShows ''Message sent successfully! I will get back to you soon.'' ''toast-success''
        (cf_toast cf'))"

definition failureOutcome :: "contact_form \<Rightarrow> contact_form \<Rightarrow> bool" where
  "failureOutcome cf cf' =
     (map f_value (formFields cf') = map f_value (formFields cf) \<and>
      toastShows ''Failed to send message. Please try again.'' ''toast-error'' (cf_toast cf'))"

section \<open>Example pages\<close>

definition exampleSlide :: slide where
  "exampleSlide = \<lparr>offsetWidth = 400, ariaHidden = None, hasContent = True, contentTabindex = None\<rparr>"

text \<open>Three testimonials with a track and a dots container, as the constructor leaves them.\<close>

definition threeSlides :: carousel where
  "threeSlides =
     newCarousel (Some \<lparr>translateX = None\<rparr>) [exampleSlide, exampleSlide, exampleSlide] True 0"

text \<open>
  A gesture on the track as the handlers see it: a press at \<open>press\<close>, the pointer
  positions reported while it moves, and the release. \<open>idleSwipe\<close> is the state of the
  closure variables when \<open>addSwipeSupport\<close> returns and after every handled release.
  The displacement of the gesture is the press position minus the position at release.
\<close>

definition idleSwipe :: swipe where
  "idleSwipe = \<lparr>startX = 0, currentX = 0\<rparr>"

definition gesture :: "int \<Rightarrow> int list \<Rightarrow> carousel \<Rightarrow> js_error + carousel \<times> swipe" where
  "gesture press moves c = handleEnd (fold handleMove moves (handleStart press (c, idleSwipe)))"

definition displacement :: "int \<Rightarrow> int list \<Rightarrow> int" where
  "displacement press moves = press - last (press # moves)"

definition examplePage :: page where
  "examplePage = \<lparr>bodyOverflow = [], activeElement = Elsewhere\<rparr>"

definition mobileSidebar :: sidebar_mgr where
  "mobileSidebar =
     newSidebarManager (Some [''sidebar'']) (Some [''hamburger'']) (Some [''overlay''])
       True True examplePage"

definition exampleModal :: image_modal where
  "exampleModal = \<lparr>modal = Some [''modal''], modalContent = Some (Markup []), modalClose = True,
     loadingImg = None, m_page = examplePage\<rparr>"

definition exampleToast :: toast where
  "exampleToast = \<lparr>element = Some \<lparr>toast_classes = [''toast''], textContent = [], ariaLive = None,
     role = None\<rparr>, timeout = False\<rparr>"

definition textField :: "string \<Rightarrow> bool \<Rightarrow> jsstring \<Rightarrow> nat \<Rightarrow> field" where
  "textField ty req v p = \<lparr>f_type = ty, f_required = req, f_value = v, f_defaultValue = [],
     f_parent = p, f_classes = [], f_ariaInvalid = None, f_ariaRequired = None\<rparr>"

definition exampleButton :: button where
  "exampleButton = \<lparr>disabled = False, btn_classes = [''btn''], innerHTML = idleLabel\<rparr>"

definition exampleForm :: "jsstring \<Rightarrow> contact_form" where
  "exampleForm email =
     \<lparr>formFields = [textField ''text'' True (js ''Ada'') 0, textField ''email'' False email 1,
                     textField ''textarea'' True (js ''Hello'') 2],
      fieldErrors = (\<lambda>_. []), submitButton = Some exampleButton, resetButton = Some exampleButton,
      submissions = 0, cf_toast = exampleToast, cf_page = examplePage\<rparr>"

text \<open>
  A page with two portfolio links and one pane. The first link points at the identifier
  \<open>branding\<close>, which no pane has; the second link carries that identifier itself.
\<close>

definition tabsPage :: document where
  "tabsPage =
     [\<lparr>el_id = None, el_classes = [''nav-link-portfolio''],
        el_attrs = [''data-category'' \<mapsto> ''branding'']\<rparr>,
      \<lparr>el_id = Some ''branding'', el_classes = [''nav-link-portfolio'', ''active''],
        el_attrs = [''data-category'' \<mapsto> ''web'']\<rparr>,
      \<lparr>el_id = Some ''web'', el_classes = [''portfolio-category'', ''active''],
        el_attrs = Map.empty\<rparr>]"

text \<open>A page whose only link has no data attribute, and a pane.\<close>

definition plainPage :: document where
  "plainPage =
     [\<lparr>el_id = None, el_classes = [''nav-link-portfolio''], el_attrs = Map.empty\<rparr>,
      \<lparr>el_id = Some ''web'', el_classes = [''portfolio-category'', ''active''],
        el_attrs = Map.empty\<rparr>]"

section \<open>TestimonialCarousel: index and dots\<close>

lemma spec_wrap_index_mod:
  assumes "0 < n"
  shows "spec_wrap_index k n = k mod n"
proof -
  have a: "\<bar>k\<bar> mod n < n" "0 \<le> \<bar>k\<bar> mod n"
    using assms by simp_all
  show ?thesis
  proof (cases "k < 0")
    case False
    then have "k smod n = k mod n"
      using assms by (simp add: signed_modulo_int_def sgn_if)
    moreover have "0 < k mod n + n"
      using assms pos_mod_sign [of n k] by linarith
    then have "(k mod n + n) smod n = k mod n"
      using assms by (simp add: signed_modulo_int_def sgn_if abs_if)
    ultimately show ?thesis by (simp add: spec_wrap_index_def)
  next
    case True
    then have km: "k smod n = - ((- k) mod n)"
      using assms by (simp add: signed_modulo_int_def sgn_if)
    define m where "m = - ((- k) mod n) + n"
    have pos: "0 < m"
      unfolding m_def using assms pos_mod_bound [of n "- k"] by linarith
    have "m smod n = m mod n"
      using assms pos by (simp add: signed_modulo_int_def sgn_if abs_if)
    also have "\<dots> = (- ((- k) mod n)) mod n"
      by (simp add: m_def)
    also have "\<dots> = k mod n"
      by (metis mod_minus_eq minus_minus)
    finally have "(- ((- k) mod n) + n) smod n = k mod n"
      by (simp add: m_def)
    then show ?thesis by (simp add: spec_wrap_index_def km)
  qed
qed

lemma cl_contains_toggle_force [simp]:
  "cl_contains t (cl_toggle_force t b cs) = b"
  by (simp add: cl_contains_def cl_toggle_force_def cl_add_def cl_remove_def)

lemma filter_index_eq:
  "filter (\<lambda>i. int i = k) [0..<n] = (if 0 \<le> k \<and> k < int n then [nat k] else [])"
  by (induction n) auto

lemma activeDots_updateDots:
  "activeDots (updateDots c) =
     (if 0 \<le> currentTestimonial c \<and> currentTestimonial c < int (length (dots c))
      then [nat (currentTestimonial c)] else [])"
proof -
  have "activeDots (updateDots c) = filter (\<lambda>i. int i = currentTestimonial c) [0..<length (dots c)]"
    unfolding activeDots_def updateDots_def
    by (auto intro!: filter_cong simp: nth_enumerate_eq)
  then show ?thesis by (simp add: filter_index_eq)
qed

lemma goToSlide_result:
  assumes "slides c \<noteq> []"
  shows "\<exists>c'. goToSlide k c = Inr c' \<and>
           currentTestimonial c' =
             (if k < 0 then int (length (slides c)) - 1
              else if k \<ge> int (length (slides c)) then 0 else k) \<and>
           length (slides c') = length (slides c) \<and> length (dots c') = length (dots c) \<and>
           activeDots c' = activeDots (updateDots (c\<lparr>currentTestimonial := currentTestimonial c'\<rparr>))"
proof -
  from assms obtain s0 rest where ss: "slides c = s0 # rest"
    by (cases "slides c") auto
  show ?thesis
    by (simp add: goToSlide_def Let_def updateDots_def ss activeDots_def)
qed

lemma goToSlide_in_range:
  assumes "slides c \<noteq> []"
  shows "returns indexInRange (goToSlide k c)"
proof -
  from goToSlide_result [OF assms, of k] obtain c' where
    r: "goToSlide k c = Inr c'" and
    i: "currentTestimonial c' = (if k < 0 then int (length (slides c)) - 1
              else if k \<ge> int (length (slides c)) then 0 else k)" and
    l: "length (slides c') = length (slides c)"
    by blast
  from assms have "0 < length (slides c)" by simp
  with i l have "indexInRange c'"
    by (auto simp: indexInRange_def)
  with r show ?thesis by (simp add: returns_def)
qed

lemma goToSlide_dot:
  assumes "slides c \<noteq> []" and "length (dots c) = length (slides c)"
  shows "returns dotMatchesIndex (goToSlide k c)"
proof -
  from goToSlide_result [OF assms(1), of k] obtain c' where
    r: "goToSlide k c = Inr c'" and
    i: "currentTestimonial c' = (if k < 0 then int (length (slides c)) - 1
              else if k \<ge> int (length (slides c)) then 0 else k)" and
    a: "activeDots c' = activeDots (updateDots (c\<lparr>currentTestimonial := currentTestimonial c'\<rparr>))"
    by blast
  from assms have n: "0 < length (slides c)" by simp
  from i n have rng: "0 \<le> currentTestimonial c' \<and> currentTestimonial c' < int (length (slides c))"
    by auto
  with a assms(2) have "activeDots c' = [nat (currentTestimonial c')]"
    by (simp add: activeDots_updateDots)
  with rng r show ?thesis by (simp add: returns_def dotMatchesIndex_def)
qed

lemma next_prev_step:
  assumes "2 \<le> length (slides c)" and "indexInRange c"
  shows "indexAfter (next c) = Some ((currentTestimonial c + 1) mod int (length (slides c)))"
    and "indexAfter (prev c) = Some ((currentTestimonial c - 1) mod int (length (slides c)))"
    and "indexAfter (next c) \<noteq> Some (currentTestimonial c)"
    and "indexAfter (prev c) \<noteq> Some (currentTestimonial c)"
proof -
  from assms(1) have ne: "slides c \<noteq> []" by (metis length_0_conv not_numeral_le_zero)
  from assms(1) have n: "2 \<le> int (length (slides c))" by simp
  from assms(2) have r: "0 \<le> currentTestimonial c" "currentTestimonial c < int (length (slides c))"
    by (simp_all add: indexInRange_def)
  have nx: "indexAfter (next c) =
     Some (if currentTestimonial c + 1 \<ge> int (length (slides c)) then 0 else currentTestimonial c + 1)"
    using goToSlide_result [OF ne, of "currentTestimonial c + 1"] r
    by (auto simp: indexAfter_def next_def)
  have pv: "indexAfter (prev c) =
     Some (if currentTestimonial c - 1 < 0 then int (length (slides c)) - 1 else currentTestimonial c - 1)"
    using goToSlide_result [OF ne, of "currentTestimonial c - 1"] r
    by (auto simp: indexAfter_def prev_def)
  show "indexAfter (next c) = Some ((currentTestimonial c + 1) mod int (length (slides c)))"
  proof (cases "currentTestimonial c + 1 \<ge> int (length (slides c))")
    case True
    with r have "currentTestimonial c + 1 = int (length (slides c))" by linarith
    with nx show ?thesis by simp
  next
    case False
    with nx r show ?thesis by simp
  qed
  show "indexAfter (prev c) = Some ((currentTestimonial c - 1) mod int (length (slides c)))"
  proof (cases "currentTestimonial c - 1 < 0")
    case True
    with r have z: "currentTestimonial c = 0" by linarith
    from n have "0 < int (length (slides c))" by linarith
    from zmod_minus1 [OF this] z
    have "(currentTestimonial c - 1) mod int (length (slides c)) = int (length (slides c)) - 1"
      by simp
    with pv True show ?thesis by simp
  next
    case False
    with pv r show ?thesis by simp
  qed
  show "indexAfter (next c) \<noteq> Some (currentTestimonial c)"
    using nx r n by auto
  show "indexAfter (prev c) \<noteq> Some (currentTestimonial c)"
    using pv r n by auto
qed

lemma handleEnd_cases:
  assumes "startX g \<noteq> 0"
  shows "\<bar>swipeDelta g\<bar> \<le> 50 \<Longrightarrow> swipeIndex (handleEnd (c, g)) = Some (currentTestimonial c)"
    and "swipeDelta g > 50 \<Longrightarrow> swipeIndex (handleEnd (c, g)) = indexAfter (next c)"
    and "swipeDelta g < - 50 \<Longrightarrow> swipeIndex (handleEnd (c, g)) = indexAfter (prev c)"
  using assms
  by (auto simp: handleEnd_def swipeDelta_def threshold_def Let_def swipeIndex_def indexAfter_def
      startAutoAdvance_def stopAutoAdvance_def split: sum.splits)

lemma threeSlides_shape:
  "length (slides threeSlides) = 3" "length (dots threeSlides) = 3"
  "currentTestimonial threeSlides = 0" "slides threeSlides \<noteq> []"
  by (simp_all add: threeSlides_def newCarousel_def createDots_def updateDots_def
      startAutoAdvance_def stopAutoAdvance_def Let_def)

text \<open>
  The constructor, given a dots container and at least two slides, creates one dot per
  slide, and navigation keeps the dots and the slides.
\<close>

lemma newCarousel_dots:
  assumes "2 \<le> length ss"
  shows "length (dots (newCarousel tr ss True cur)) = length (slides (newCarousel tr ss True cur))"
  using assms
  by (simp add: newCarousel_def createDots_def updateDots_def startAutoAdvance_def
      stopAutoAdvance_def Let_def)

lemma goToSlide_keeps_dots:
  assumes "goToSlide k c = Inr c'"
  shows "length (dots c') = length (dots c) \<and> length (slides c') = length (slides c)"
proof (cases "slides c")
  case Nil
  with assms show ?thesis by (simp add: goToSlide_def Let_def)
next
  case (Cons s0 rest)
  then have "slides c \<noteq> []" by simp
  from goToSlide_result [OF this, of k] assms show ?thesis by auto
qed

section \<open>TestimonialCarousel: the claims\<close>

text \<open>
  C1. The claim: for every slide count \<open>N \<ge> 2\<close> and every integer \<open>k\<close>, \<open>goToSlide(k)\<close>
  sets the current index to \<open>((k % N) + N) % N\<close>. The code wraps by one step only: a
  negative request goes to the last slide and a request of \<open>N\<close> or more goes to the
  first. With three slides, \<open>goToSlide(-2)\<close> stores 2, where the formula gives 1.
\<close>

theorem goToSlide_formula_counterexample:
  "length (slides threeSlides) = 3 \<and>
   indexAfter (goToSlide (- 2) threeSlides) = Some 2 \<and>
   spec_wrap_index (- 2) (int (length (slides threeSlides))) = 1"
  by (simp add: indexAfter_def goToSlide_def threeSlides_def newCarousel_def createDots_def
      updateDots_def startAutoAdvance_def stopAutoAdvance_def Let_def spec_wrap_index_def
      signed_modulo_int_def exampleSlide_def)

text \<open>
  C1, as amended. For every slide count \<open>N \<ge> 2\<close> and every integer \<open>k\<close>, \<open>goToSlide(k)\<close>
  stores \<open>N - 1\<close> when \<open>k < 0\<close>, \<open>0\<close> when \<open>k \<ge> N\<close> and \<open>k\<close> otherwise; for
  \<open>-1 \<le> k \<le> N\<close>, the requests that \<open>next\<close>, \<open>prev\<close> and the dots make from an index in
  range, this is \<open>((k % N) + N) % N\<close>.
\<close>

theorem goToSlide_single_step_wrap:
  assumes "2 \<le> length (slides c)"
  shows "indexAfter (goToSlide k c) =
           Some (if k < 0 then int (length (slides c)) - 1
                 else if k \<ge> int (length (slides c)) then 0 else k) \<and>
         (- 1 \<le> k \<and> k \<le> int (length (slides c)) \<longrightarrow>
            indexAfter (goToSlide k c) = Some (spec_wrap_index k (int (length (slides c)))))"
proof -
  from assms have ne: "slides c \<noteq> []" by (metis length_0_conv not_numeral_le_zero)
  from ne have n: "0 < int (length (slides c))" by simp
  from goToSlide_result [OF ne, of k] have
    a: "indexAfter (goToSlide k c) =
           Some (if k < 0 then int (length (slides c)) - 1
                 else if k \<ge> int (length (slides c)) then 0 else k)"
    by (auto simp: indexAfter_def)
  have "(if k < 0 then int (length (slides c)) - 1
         else if k \<ge> int (length (slides c)) then 0 else k) = k mod int (length (slides c))"
    if "- 1 \<le> k" "k \<le> int (length (slides c))"
  proof (cases "k = - 1")
    case True
    then show ?thesis using zmod_minus1 [OF n] by simp
  next
    case False
    note not_minus = this
    show ?thesis
    proof (cases "k = int (length (slides c))")
      case True
      then show ?thesis using n by simp
    next
      case False
      with not_minus that have "0 \<le> k \<and> k < int (length (slides c))" by linarith
      then show ?thesis by simp
    qed
  qed
  with a show ?thesis
    by (simp add: spec_wrap_index_mod [OF n])
qed

theorem goToSlide_single_step_wrap_witness:
  "2 \<le> length (slides threeSlides) \<and> (- 1 :: int) \<le> - 1 \<and>
   - 1 \<le> int (length (slides threeSlides)) \<and>
   indexAfter (goToSlide (- 1) threeSlides) = Some 2 \<and>
   spec_wrap_index (- 1) (int (length (slides threeSlides))) = 2"
  using goToSlide_single_step_wrap [of threeSlides "- 1"]
  by (auto simp: threeSlides_shape)

text \<open>
  C9. For every slide count \<open>N \<ge> 1\<close> and every integer \<open>k\<close>, \<open>goToSlide(k)\<close> returns
  with \<open>0 \<le> index < N\<close>, and so do \<open>next\<close>, \<open>prev\<close> and a dot click, whatever the index
  was before; the swipe handlers, \<open>updateDots\<close>, \<open>createDots\<close> and the auto-advance
  switches leave an index that was in range where it is.
\<close>

theorem index_in_range:
  assumes "1 \<le> length (slides c)"
  shows "returns indexInRange (goToSlide k c) \<and> returns indexInRange (next c) \<and>
         returns indexInRange (prev c) \<and> returns indexInRange (dotClick i c) \<and>
         (indexInRange c \<longrightarrow>
            returns (indexInRange \<circ> fst) (handleEnd (c, g)) \<and>
            indexInRange (fst (handleStart x (c, g))) \<and>
            indexInRange (fst (handleMove x (c, g))) \<and>
            indexInRange (updateDots c) \<and> indexInRange (createDots c) \<and>
            indexInRange (startAutoAdvance c) \<and> indexInRange (stopAutoAdvance c))"
proof -
  from assms have ne: "slides c \<noteq> []" by auto
  have nav: "returns indexInRange (goToSlide j c)" for j
    using ne by (rule goToSlide_in_range)
  have keep: "indexInRange (updateDots c) = indexInRange c"
    "indexInRange (createDots c) = indexInRange c"
    "indexInRange (startAutoAdvance c) = indexInRange c"
    "indexInRange (stopAutoAdvance c) = indexInRange c" for c
    by (simp_all add: indexInRange_def updateDots_def createDots_def startAutoAdvance_def stopAutoAdvance_def)
  have "returns (indexInRange \<circ> fst) (handleEnd (c, g))" if "indexInRange c"
    using that nav [of "currentTestimonial c + 1"] nav [of "currentTestimonial c - 1"]
    by (auto simp: handleEnd_def Let_def next_def prev_def returns_def keep split: sum.splits)
  then show ?thesis
    using nav by (simp add: next_def prev_def dotClick_def handleStart_def handleMove_def keep)
qed

theorem index_in_range_witness:
  "1 \<le> length (slides threeSlides) \<and> indexInRange threeSlides \<and>
   returns indexInRange (goToSlide 7 threeSlides) \<and>
   returns indexInRange (prev threeSlides) \<and>
   returns (indexInRange \<circ> fst) (handleEnd (threeSlides, \<lparr>startX = 300, currentX = 200\<rparr>))"
proof -
  have h: "1 \<le> length (slides threeSlides)"
    by (simp add: threeSlides_shape)
  have r: "indexInRange threeSlides"
    by (simp add: indexInRange_def threeSlides_shape)
  show ?thesis
    using h r index_in_range [OF h, of 7 0 "\<lparr>startX = 300, currentX = 200\<rparr>" 0]
    by simp
qed

text \<open>
  C6. In a carousel that has its dots, one per slide, after \<open>goToSlide\<close>, \<open>next\<close>,
  \<open>prev\<close> and a dot click exactly one dot carries the class \<open>active\<close>, and its position
  is the current slide index.
\<close>

theorem one_active_dot:
  assumes "slides c \<noteq> []" and "length (dots c) = length (slides c)"
  shows "returns dotMatchesIndex (goToSlide k c) \<and> returns dotMatchesIndex (next c) \<and>
         returns dotMatchesIndex (prev c) \<and> returns dotMatchesIndex (dotClick i c)"
  using assms by (simp add: next_def prev_def dotClick_def goToSlide_dot)

theorem one_active_dot_witness:
  "slides threeSlides \<noteq> [] \<and> length (dots threeSlides) = length (slides threeSlides) \<and>
   returns dotMatchesIndex (prev threeSlides) \<and> indexAfter (prev threeSlides) = Some 2 \<and>
   returns dotMatchesIndex (dotClick 1 threeSlides)"
proof -
  have h: "slides threeSlides \<noteq> []" "length (dots threeSlides) = length (slides threeSlides)"
    by (simp_all add: threeSlides_shape)
  have "indexAfter (prev threeSlides) = Some 2"
    by (simp add: indexAfter_def prev_def goToSlide_def threeSlides_def newCarousel_def
        createDots_def updateDots_def startAutoAdvance_def stopAutoAdvance_def Let_def)
  then show ?thesis
    using h one_active_dot [OF h, of 0 1] by simp
qed

text \<open>
  What \<open>handleEnd\<close> does with the two closure variables as it finds them: nothing when
  \<open>startX\<close> is 0, and otherwise a comparison of \<open>startX - currentX\<close> with the threshold.
\<close>

lemma handleEnd_on_release:
  "(startX g = 0 \<longrightarrow> handleEnd (c, g) = Inr (c, g)) \<and>
   (startX g \<noteq> 0 \<longrightarrow>
      (\<bar>swipeDelta g\<bar> \<le> 50 \<longrightarrow> swipeIndex (handleEnd (c, g)) = Some (currentTestimonial c)) \<and>
      (swipeDelta g > 50 \<longrightarrow> swipeIndex (handleEnd (c, g)) = indexAfter (next c)) \<and>
      (swipeDelta g < - 50 \<longrightarrow> swipeIndex (handleEnd (c, g)) = indexAfter (prev c)))"
proof -
  have z: "startX g = 0 \<longrightarrow> handleEnd (c, g) = Inr (c, g)"
    by (simp add: handleEnd_def)
  from z handleEnd_cases [of g c] show ?thesis
    by blast
qed

text \<open>
  While a gesture is in progress every move is recorded, so a gesture that starts away
  from \<open>pageX = 0\<close> and reports at least one move is judged by its displacement.
\<close>

lemma moves_recorded:
  assumes "startX g \<noteq> 0"
  shows "fold handleMove moves (c, g) = (c, g\<lparr>currentX := last (currentX g # moves)\<rparr>)"
  using assms
proof (induction moves arbitrary: g)
  case Nil
  then show ?case by simp
next
  case (Cons m moves)
  from Cons.prems have step: "handleMove m (c, g) = (c, g\<lparr>currentX := m\<rparr>)"
    by (simp add: handleMove_def)
  from Cons.prems have "startX (g\<lparr>currentX := m\<rparr>) \<noteq> 0" by simp
  from Cons.IH [OF this] step show ?case by simp
qed

lemma stopAutoAdvance_index:
  "indexAfter (next (stopAutoAdvance c)) = indexAfter (next c)"
  "indexAfter (prev (stopAutoAdvance c)) = indexAfter (prev c)"
  "currentTestimonial (stopAutoAdvance c) = currentTestimonial c"
  by (simp_all add: indexAfter_def next_def prev_def goToSlide_def stopAutoAdvance_def
      updateDots_def Let_def split: list.splits)

lemma gesture_with_move:
  assumes "press \<noteq> 0" and "moves \<noteq> []"
  shows "(\<bar>displacement press moves\<bar> \<le> 50 \<longrightarrow>
            swipeIndex (gesture press moves c) = Some (currentTestimonial c)) \<and>
         (displacement press moves > 50 \<longrightarrow>
            swipeIndex (gesture press moves c) = indexAfter (next c)) \<and>
         (displacement press moves < - 50 \<longrightarrow>
            swipeIndex (gesture press moves c) = indexAfter (prev c))"
proof -
  define g where "g = \<lparr>startX = press, currentX = last moves\<rparr>"
  have s: "handleStart press (c, idleSwipe) = (stopAutoAdvance c, \<lparr>startX = press, currentX = 0\<rparr>)"
    by (simp add: handleStart_def idleSwipe_def)
  from assms(1) have "startX \<lparr>startX = press, currentX = 0\<rparr> \<noteq> 0" by simp
  from moves_recorded [OF this, of moves "stopAutoAdvance c"] assms(2)
  have "fold handleMove moves (handleStart press (c, idleSwipe)) = (stopAutoAdvance c, g)"
    by (simp add: s g_def)
  then have r: "gesture press moves c = handleEnd (stopAutoAdvance c, g)"
    by (simp add: gesture_def)
  from assms have d: "swipeDelta g = displacement press moves" "startX g \<noteq> 0"
    by (simp_all add: swipeDelta_def displacement_def g_def)
  from handleEnd_on_release [of g "stopAutoAdvance c"] d r show ?thesis
    by (simp add: stopAutoAdvance_index)
qed

text \<open>
  C2. The claim is right and \<open>handleEnd\<close> misses it in two cases. \<open>handleStart\<close> sets
  \<open>startX\<close> and leaves \<open>currentX\<close> at 0, so a press at \<open>pageX = 300\<close> that is released
  without a move has displacement 0 and is judged as \<open>300 - 0\<close>: the carousel goes from
  slide 0 to slide 1. The value 0 of \<open>startX\<close> also means that no gesture is in progress,
  so a swipe from \<open>pageX = 0\<close> to \<open>200\<close>, of displacement \<open>-200\<close>, is dropped by
  \<open>handleMove\<close> and \<open>handleEnd\<close>: the index stays 0, where one step back gives 2.
\<close>

theorem tap_advances_and_edge_swipe_is_dropped:
  "currentTestimonial threeSlides = 0 \<and>
   displacement 300 [] = 0 \<and> swipeIndex (gesture 300 [] threeSlides) = Some 1 \<and>
   displacement 0 [200] = - 200 \<and> swipeIndex (gesture 0 [200] threeSlides) = Some 0 \<and>
   indexAfter (prev threeSlides) = Some 2"
  by (simp add: gesture_def displacement_def idleSwipe_def handleStart_def handleMove_def
      handleEnd_def threshold_def swipeIndex_def indexAfter_def next_def prev_def goToSlide_def
      threeSlides_def newCarousel_def createDots_def updateDots_def startAutoAdvance_def
      stopAutoAdvance_def Let_def exampleSlide_def)

section \<open>SidebarManager: the claim\<close>

lemma cl_members [simp]:
  "cl_contains t (cl_add u cs) = (t = u \<or> cl_contains t cs)"
  "cl_contains t (cl_remove u cs) = (t \<noteq> u \<and> cl_contains t cs)"
  "cl_contains t (cl_toggle u cs) = (if t = u then \<not> cl_contains t cs else cl_contains t cs)"
  by (auto simp: cl_contains_def cl_add_def cl_remove_def cl_toggle_def)

text \<open>
  C7. From every sidebar state, two calls of \<open>toggle\<close> with the viewport class unchanged
  in between give back the original open/closed flag \<open>isOpen\<close> and the original
  collapsed marker; \<open>toggle\<close> itself never changes the viewport class. The class markers
  of the open state, \<open>sidebar-expanded\<close> on the sidebar and \<open>active\<close> on the overlay,
  come back as well whenever they agreed with the flag before.
\<close>

theorem toggle_twice:
  "isOpen (toggle (toggle s)) = isOpen s \<and>
   collapsed (toggle (toggle s)) = collapsed s \<and>
   isMobile (toggle (toggle s)) = isMobile s \<and>
   (sidebarExpanded s = isOpen s \<longrightarrow> sidebarExpanded (toggle (toggle s)) = sidebarExpanded s) \<and>
   (overlayActive s = isOpen s \<longrightarrow> overlayActive (toggle (toggle s)) = overlayActive s)"
  by (cases "sidebar s"; cases "overlay s")
     (auto simp: toggle_def sb_open_def sb_close_def toggleDesktop_def collapsed_def
        sidebarExpanded_def overlayActive_def)

theorem toggle_twice_witness:
  "sidebarExpanded mobileSidebar = isOpen mobileSidebar \<and>
   overlayActive mobileSidebar = isOpen mobileSidebar \<and>
   isMobile mobileSidebar \<and> \<not> isOpen mobileSidebar \<and> isOpen (toggle mobileSidebar) \<and>
   \<not> isOpen (toggle (toggle mobileSidebar)) \<and>
   \<not> sidebarExpanded (toggle (toggle mobileSidebar)) \<and>
   \<not> overlayActive (toggle (toggle mobileSidebar)) \<and>
   collapsed (toggle (toggle mobileSidebar))"
proof -
  have a: "sidebarExpanded mobileSidebar = isOpen mobileSidebar"
    "overlayActive mobileSidebar = isOpen mobileSidebar"
    "isMobile mobileSidebar" "\<not> isOpen mobileSidebar" "collapsed mobileSidebar"
    by (simp_all add: mobileSidebar_def newSidebarManager_def setInitialState_def closeSidebar_def
        sidebarExpanded_def overlayActive_def collapsed_def cl_contains_def cl_add_def cl_remove_def)
  have b: "isOpen (toggle mobileSidebar)"
    by (simp add: mobileSidebar_def newSidebarManager_def setInitialState_def closeSidebar_def
        toggle_def sb_open_def)
  show ?thesis
    using a b toggle_twice [of mobileSidebar] by simp
qed

section \<open>ImageModal: the claim\<close>

text \<open>
  C8. When the trigger button has no \<open>data-image\<close> attribute, \<open>open\<close> returns the state
  it was given: the modal's classes, its content region, the page's scroll lock and the
  active element are all as before.
\<close>

theorem modal_open_without_source:
  assumes "dataImage button = None"
  shows "modal_open button m = m"
  using assms by (simp add: modal_open_def Let_def)

theorem modal_open_without_source_witness:
  "dataImage \<lparr>dataImage = None, dataAlt = Some ''Logo''\<rparr> = None \<and>
   modal_open \<lparr>dataImage = None, dataAlt = Some ''Logo''\<rparr> exampleModal = exampleModal \<and>
   modal_open \<lparr>dataImage = Some ''logo.png'', dataAlt = Some ''Logo''\<rparr> exampleModal \<noteq> exampleModal"
proof -
  have h: "dataImage \<lparr>dataImage = None, dataAlt = Some ''Logo''\<rparr> = None" by simp
  have "modalContent (modal_open \<lparr>dataImage = Some ''logo.png'', dataAlt = Some ''Logo''\<rparr> exampleModal)
          \<noteq> modalContent exampleModal"
    by (simp add: modal_open_def exampleModal_def Let_def)
  then have "modal_open \<lparr>dataImage = Some ''logo.png'', dataAlt = Some ''Logo''\<rparr> exampleModal \<noteq> exampleModal"
    by metis
  then show ?thesis
    using h modal_open_without_source [OF h, of exampleModal] by simp
qed

section \<open>ContactForm: validation\<close>

lemma fieldCheck_core: "fieldCore f = fieldCore g \<Longrightarrow> fieldCheck f = fieldCheck g"
  by (simp add: fieldCore_def fieldCheck_def Let_def)

lemma sameForm_refl: "sameForm cf cf"
  by (simp add: sameForm_def)

lemma sameForm_trans: "sameForm a b \<Longrightarrow> sameForm b c \<Longrightarrow> sameForm a c"
  by (simp add: sameForm_def)

lemma map_update_same:
  assumes "i < length xs" and "h y = h (xs ! i)"
  shows "map h (xs[i := y]) = map h xs"
  using assms by (simp add: map_update list_update_same_conv)

lemma setFieldValidity_same:
  assumes "i < length (formFields cf)"
  shows "sameForm cf (setFieldValidity i v msg cf)"
  using assms
  by (simp add: sameForm_def setFieldValidity_def Let_def map_update_same fieldCore_def)

lemma validateField_same:
  assumes "i < length (formFields cf)"
  shows "sameForm cf (snd (validateField i cf))"
    and "fst (validateField i cf) = fst (fieldCheck (formFields cf ! i))"
  using assms
  by (simp_all add: validateField_def setFieldValidity_same split: prod.splits)

lemma sameForm_fieldCheck:
  assumes "sameForm cf cf'" and "j < length (formFields cf)"
  shows "fieldCheck (formFields cf' ! j) = fieldCheck (formFields cf ! j)"
    and "length (formFields cf') = length (formFields cf)"
proof -
  from assms(1) have m: "map fieldCore (formFields cf') = map fieldCore (formFields cf)"
    by (simp add: sameForm_def)
  then show l: "length (formFields cf') = length (formFields cf)"
    by (rule map_eq_imp_length_eq)
  from m have "map fieldCore (formFields cf') ! j = map fieldCore (formFields cf) ! j"
    by simp
  with assms(2) l have "fieldCore (formFields cf' ! j) = fieldCore (formFields cf ! j)"
    by simp
  then show "fieldCheck (formFields cf' ! j) = fieldCheck (formFields cf ! j)"
    by (rule fieldCheck_core)
qed

lemma validateAll_result:
  assumes "\<forall>j\<in>set ks. j < length (formFields cf)"
  shows "sameForm cf (snd (validateAll ks b cf)) \<and>
         fst (validateAll ks b cf) = (b \<and> (\<forall>j\<in>set ks. fst (fieldCheck (formFields cf ! j))))"
  using assms
proof (induction ks arbitrary: b cf)
  case Nil
  then show ?case by (simp add: sameForm_refl)
next
  case (Cons i ks)
  obtain ok cf' where v: "validateField i cf = (ok, cf')"
    by (cases "validateField i cf")
  from Cons.prems have i: "i < length (formFields cf)" by simp
  from validateField_same [OF i] v have s: "sameForm cf cf'"
    and ok: "ok = fst (fieldCheck (formFields cf ! i))"
    by simp_all
  from Cons.prems sameForm_fieldCheck(2) [OF s i]
  have p: "\<forall>j\<in>set ks. j < length (formFields cf')" by simp
  from Cons.prems sameForm_fieldCheck(1) [OF s]
  have e: "\<forall>j\<in>set ks. fieldCheck (formFields cf' ! j) = fieldCheck (formFields cf ! j)"
    by simp
  define b' where "b' = (if \<not> ok then False else b)"
  have step: "validateAll (i # ks) b cf = validateAll ks b' cf'"
    by (simp add: v b'_def)
  from Cons.IH [OF p, of b']
  have ih1: "sameForm cf' (snd (validateAll ks b' cf'))"
    and ih2: "fst (validateAll ks b' cf') = (b' \<and> (\<forall>j\<in>set ks. fst (fieldCheck (formFields cf' ! j))))"
    by blast+
  from sameForm_trans [OF s ih1] have g1: "sameForm cf (snd (validateAll (i # ks) b cf))"
    by (simp only: step)
  have "(b' \<and> (\<forall>j\<in>set ks. fst (fieldCheck (formFields cf' ! j)))) =
        (b \<and> (\<forall>j\<in>set (i # ks). fst (fieldCheck (formFields cf ! j))))"
    unfolding b'_def ok using e by auto
  with ih2 have g2: "fst (validateAll (i # ks) b cf) =
      (b \<and> (\<forall>j\<in>set (i # ks). fst (fieldCheck (formFields cf ! j))))"
    by (simp only: step)
  from g1 g2 show ?case by blast
qed

lemma validateAll_form:
  "sameForm cf (snd (validateAll [0..<length (formFields cf)] True cf))"
  "fst (validateAll [0..<length (formFields cf)] True cf) = allFieldsValid cf"
proof -
  have "\<forall>j\<in>set [0..<length (formFields cf)]. j < length (formFields cf)" by simp
  from validateAll_result [OF this, of True]
  have a: "sameForm cf (snd (validateAll [0..<length (formFields cf)] True cf))"
    and b: "fst (validateAll [0..<length (formFields cf)] True cf) =
       (True \<and> (\<forall>j\<in>set [0..<length (formFields cf)]. fst (fieldCheck (formFields cf ! j))))"
    by blast+
  from a show "sameForm cf (snd (validateAll [0..<length (formFields cf)] True cf))" .
  have "(True \<and> (\<forall>j\<in>set [0..<length (formFields cf)]. fst (fieldCheck (formFields cf ! j)))) =
        allFieldsValid cf"
    by (auto simp: allFieldsValid_def list_all_length)
  with b show "fst (validateAll [0..<length (formFields cf)] True cf) = allFieldsValid cf"
    by (simp only:)
qed

subsection \<open>The email pattern\<close>

lemma regex_once:
  "regex_test ((cls, Once) # r) s = (\<exists>c rest. s = c # rest \<and> cls c \<and> regex_test r rest)"
  by (cases s) auto

lemma regex_plus:
  "regex_test ((cls, OneOrMore) # r) s =
     (\<exists>a rest. s = a @ rest \<and> a \<noteq> [] \<and> list_all cls a \<and> regex_test r rest)"
proof (induction s)
  case Nil
  then show ?case by simp
next
  case (Cons c s)
  show ?case
  proof
    assume "regex_test ((cls, OneOrMore) # r) (c # s)"
    then have c: "cls c" and d: "regex_test ((cls, OneOrMore) # r) s \<or> regex_test r s"
      by simp_all
    from d show "\<exists>a rest. c # s = a @ rest \<and> a \<noteq> [] \<and> list_all cls a \<and> regex_test r rest"
    proof
      assume "regex_test ((cls, OneOrMore) # r) s"
      with Cons.IH obtain a rest where "s = a @ rest" "list_all cls a" "regex_test r rest"
        by blast
      with c have "c # s = (c # a) @ rest \<and> c # a \<noteq> [] \<and> list_all cls (c # a) \<and> regex_test r rest"
        by simp
      then show ?thesis by blast
    next
      assume "regex_test r s"
      with c have "c # s = [c] @ s \<and> [c] \<noteq> [] \<and> list_all cls [c] \<and> regex_test r s"
        by simp
      then show ?thesis by blast
    qed
  next
    assume "\<exists>a rest. c # s = a @ rest \<and> a \<noteq> [] \<and> list_all cls a \<and> regex_test r rest"
    then obtain a rest where e: "c # s = a @ rest" and ne: "a \<noteq> []"
      and cl: "list_all cls a" and m: "regex_test r rest"
      by blast
    from ne obtain a' where a: "a = c # a'" and s: "s = a' @ rest"
      using e by (cases a) auto
    from cl a have c: "cls c" and cl': "list_all cls a'" by simp_all
    show "regex_test ((cls, OneOrMore) # r) (c # s)"
    proof (cases "a' = []")
      case True
      with s m c show ?thesis by simp
    next
      case False
      with s cl' m Cons.IH have "regex_test ((cls, OneOrMore) # r) s" by blast
      with c show ?thesis by simp
    qed
  qed
qed

text \<open>What the pattern accepts.\<close>

lemma isValidEmail_iff:
  "isValidEmail s =
     (\<exists>a b c. s = a @ [0x40] @ b @ [0x2E] @ c \<and> a \<noteq> [] \<and> b \<noteq> [] \<and> c \<noteq> [] \<and>
        list_all notSpaceAt a \<and> list_all notSpaceAt b \<and> list_all notSpaceAt c)"
  unfolding isValidEmail_def emailRegex_def regex_plus regex_once
  by (simp, blast)

lemma notSpaceAt_no_at: "list_all notSpaceAt a \<Longrightarrow> 0x40 \<notin> set a"
  by (auto simp: list_all_iff notSpaceAt_def)

lemma afterAt_shape:
  assumes "0x40 \<notin> set a"
  shows "afterAt (a @ [0x40] @ rest) = rest"
proof -
  from assms have "dropWhile (\<lambda>c. c \<noteq> 0x40) (a @ [0x40] @ rest) = [0x40] @ rest"
    by (induction a) auto
  then show ?thesis by (simp add: afterAt_def)
qed

lemma valid_email_has_at: "isValidEmail s \<Longrightarrow> 0x40 \<in> set s"
  by (auto simp: isValidEmail_iff)

lemma valid_email_has_domain_dot:
  assumes "isValidEmail s"
  shows "0x2E \<in> set (afterAt s)"
proof -
  from assms obtain a b c where s: "s = a @ [0x40] @ (b @ [0x2E] @ c)" and a: "list_all notSpaceAt a"
    by (auto simp: isValidEmail_iff)
  from a have "0x40 \<notin> set a" by (rule notSpaceAt_no_at)
  then have "afterAt s = b @ [0x2E] @ c"
    unfolding s by (rule afterAt_shape)
  then show ?thesis by simp
qed

lemma js_user:
  "js ''user@example.com'' =
     [117, 115, 101, 114, 64, 101, 120, 97, 109, 112, 108, 101, 46, 99, 111, 109]"
  by (simp add: js_def)
lemma notSpaceAt_letters:
  "notSpaceAt 117" "notSpaceAt 115" "notSpaceAt 101" "notSpaceAt 114" "notSpaceAt 120"
  "notSpaceAt 97" "notSpaceAt 109" "notSpaceAt 112" "notSpaceAt 108" "notSpaceAt 99"
  "notSpaceAt 111" "notSpaceAt 46"
  by (simp_all add: notSpaceAt_def isWhiteSpace_def)
lemma example_email: "isValidEmail (js ''user@example.com'')"
  by (simp add: js_user isValidEmail_def emailRegex_def notSpaceAt_letters)

lemma trim_decomp:
  "\<exists>pre post. s = pre @ trim s @ post \<and> list_all isWhiteSpace pre \<and> list_all isWhiteSpace post"
proof -
  define pre where "pre = takeWhile isWhiteSpace s"
  define t where "t = dropWhile isWhiteSpace s"
  define post where "post = rev (takeWhile isWhiteSpace (rev t))"
  have s: "s = pre @ t"
    by (simp add: pre_def t_def)
  have "rev (dropWhile isWhiteSpace (rev t)) @ rev (takeWhile isWhiteSpace (rev t)) =
        rev (takeWhile isWhiteSpace (rev t) @ dropWhile isWhiteSpace (rev t))"
    by (simp only: rev_append)
  also have "\<dots> = rev (rev t)"
    by (simp only: takeWhile_dropWhile_id)
  also have "\<dots> = t"
    by simp
  finally have t: "t = trim s @ post"
    by (simp add: trim_def post_def t_def)
  have p1: "list_all isWhiteSpace pre"
    by (auto simp: pre_def list_all_iff dest: set_takeWhileD)
  have p2: "list_all isWhiteSpace post"
    by (auto simp: post_def list_all_iff dest: set_takeWhileD)
  from s t p1 p2 show ?thesis by blast
qed

lemma trim_subset: "set (trim s) \<subseteq> set s"
proof -
  from trim_decomp [of s] obtain pre post where "s = pre @ trim s @ post" by blast
  then have "set s = set pre \<union> set (trim s) \<union> set post"
    by (metis set_append sup_assoc)
  then show ?thesis by blast
qed

lemma whitespace_no_at: "list_all isWhiteSpace a \<Longrightarrow> 0x40 \<notin> set a"
  by (auto simp: list_all_iff isWhiteSpace_def)

lemma valid_trimmed_has_domain_dot:
  assumes "isValidEmail (trim s)"
  shows "0x2E \<in> set (afterAt s)"
proof -
  from assms obtain a b c where t: "trim s = a @ [0x40] @ (b @ [0x2E] @ c)"
    and a: "list_all notSpaceAt a"
    by (auto simp: isValidEmail_iff)
  from trim_decomp [of s] obtain pre post where s: "s = pre @ trim s @ post"
    and pre: "list_all isWhiteSpace pre"
    by blast
  from s t have s': "s = (pre @ a) @ [0x40] @ (b @ [0x2E] @ c @ post)"
    by simp
  from a pre have "0x40 \<notin> set (pre @ a)"
    using notSpaceAt_no_at whitespace_no_at by auto
  then have "afterAt ((pre @ a) @ [0x40] @ (b @ [0x2E] @ c @ post)) = b @ [0x2E] @ c @ post"
    by (rule afterAt_shape)
  with s' have "afterAt s = b @ [0x2E] @ c @ post" by simp
  then show ?thesis by simp
qed

lemma trim_user: "trim (js ''user@example.com'') = js ''user@example.com''"
proof -
  have w: "\<not> isWhiteSpace 117" "\<not> isWhiteSpace 109"
    by (simp_all add: isWhiteSpace_def)
  show ?thesis
    by (simp add: js_user trim_def w)
qed

text \<open>
  C4. A string with no \<open>@\<close>, or with no \<open>.\<close> after its first \<open>@\<close>, fails
  \<open>isValidEmail\<close>, and \<open>user@example.com\<close> passes; the same holds for an email field
  with such a value, which \<open>validateField\<close> trims before the test.
\<close>

theorem email_validation:
  "(0x40 \<notin> set s \<longrightarrow> \<not> isValidEmail s) \<and>
   (0x2E \<notin> set (afterAt s) \<longrightarrow> \<not> isValidEmail s) \<and>
   isValidEmail (js ''user@example.com'') \<and>
   (f_type f = ''email'' \<and> (0x40 \<notin> set (f_value f) \<or> 0x2E \<notin> set (afterAt (f_value f)))
      \<longrightarrow> \<not> fst (fieldCheck f)) \<and>
   (f_type f = ''email'' \<and> f_value f = js ''user@example.com'' \<longrightarrow> fst (fieldCheck f))"
proof -
  have a: "0x40 \<notin> set s \<longrightarrow> \<not> isValidEmail s"
    using valid_email_has_at by blast
  have b: "0x2E \<notin> set (afterAt s) \<longrightarrow> \<not> isValidEmail s"
    using valid_email_has_domain_dot by blast
  have c: "\<not> fst (fieldCheck f)"
    if "f_type f = ''email''" "0x40 \<notin> set (f_value f) \<or> 0x2E \<notin> set (afterAt (f_value f))"
  proof -
    have "\<not> isValidEmail (trim (f_value f))"
      using that(2) valid_trimmed_has_domain_dot [of "f_value f"]
        valid_email_has_at [of "trim (f_value f)"] trim_subset [of "f_value f"]
      by blast
    with that(1) show ?thesis by (simp add: fieldCheck_def Let_def)
  qed
  have d: "fst (fieldCheck f)" if "f_type f = ''email''" "f_value f = js ''user@example.com''"
    using that by (simp add: fieldCheck_def Let_def trim_user example_email)
  from a b c d example_email show ?thesis by blast
qed

theorem email_validation_witness:
  "0x40 \<notin> set (js ''user.example.com'') \<and> \<not> isValidEmail (js ''user.example.com'') \<and>
   0x2E \<notin> set (afterAt (js ''user@examplecom'')) \<and> \<not> isValidEmail (js ''user@examplecom'') \<and>
   f_type (textField ''email'' False (js ''user@example.com'') 1) = ''email'' \<and>
   fst (fieldCheck (textField ''email'' False (js ''user@example.com'') 1)) \<and>
   \<not> fst (fieldCheck (textField ''email'' False (js ''user@examplecom'') 1))"
proof -
  have a: "0x40 \<notin> set (js ''user.example.com'')"
    by (simp add: js_def)
  have b: "0x2E \<notin> set (afterAt (js ''user@examplecom''))"
    by (simp add: js_def afterAt_def)
  have c: "f_type (textField ''email'' False v 1) = ''email''"
    "f_value (textField ''email'' False v 1) = v" for v
    by (simp_all add: textField_def)
  show ?thesis
    using a b c
      email_validation [of "js ''user.example.com''" "textField ''email'' False (js ''user@example.com'') 1"]
      email_validation [of "js ''user@examplecom''" "textField ''email'' False (js ''user@examplecom'') 1"]
    by simp
qed

section \<open>ContactForm: submission\<close>

lemma sameForm_values:
  assumes "sameForm cf cf'"
  shows "map f_value (formFields cf') = map f_value (formFields cf)"
    and "map f_defaultValue (formFields cf') = map f_defaultValue (formFields cf)"
proof -
  from assms have m: "map fieldCore (formFields cf') = map fieldCore (formFields cf)"
    by (simp add: sameForm_def)
  have v: "map f_value xs = map (\<lambda>p. fst (snd (snd p))) (map fieldCore xs)" for xs
    by (simp add: fieldCore_def)
  have d: "map f_defaultValue xs = map (\<lambda>p. snd (snd (snd p))) (map fieldCore xs)" for xs
    by (simp add: fieldCore_def)
  from m show "map f_value (formFields cf') = map f_value (formFields cf)"
    by (simp only: v)
  from m show "map f_defaultValue (formFields cf') = map f_defaultValue (formFields cf)"
    by (simp only: d)
qed

lemma toast_show_shows:
  assumes "element t \<noteq> None"
  shows "toastShows message (''toast-'' @ type) (toast_show message type t)"
  using assms
  by (auto simp: toastShows_def toast_show_def toast_hide_def Let_def split: option.splits)

lemma toast_show_text:
  assumes "toastShows message cls (toast_show message' type t)"
  shows "message = message'"
  using assms
  by (auto simp: toastShows_def toast_show_def toast_hide_def Let_def split: option.splits)

lemma handleSubmit_blocked:
  assumes "\<not> allFieldsValid cf"
  shows "fst (handleSubmit callSucceeds cf) = None"
    and "submissions (snd (handleSubmit callSucceeds cf)) = submissions cf"
    and "map f_value (formFields (snd (handleSubmit callSucceeds cf))) = map f_value (formFields cf)"
    and "submitButton (snd (handleSubmit callSucceeds cf)) = submitButton cf"
    and "resetButton (snd (handleSubmit callSucceeds cf)) = resetButton cf"
    and "cf_toast (snd (handleSubmit callSucceeds cf)) =
           toast_show ''Please fix the errors in the form'' ''error'' (cf_toast cf)"
proof -
  obtain b cf1 where v: "validateAll [0..<length (formFields cf)] True cf = (b, cf1)"
    by (cases "validateAll [0..<length (formFields cf)] True cf")
  from validateAll_form [of cf] v assms have b: "\<not> b" and s: "sameForm cf cf1"
    by simp_all
  define cf2 where
    "cf2 = cf1\<lparr>cf_toast := toast_show ''Please fix the errors in the form'' ''error'' (cf_toast cf1)\<rparr>"
  have h: "handleSubmit callSucceeds cf =
     (None, case firstInvalid (formFields cf2) 0 of
              None \<Rightarrow> cf2
            | Some i \<Rightarrow> cf2\<lparr>cf_page := (cf_page cf2)\<lparr>activeElement := FormField i\<rparr>\<rparr>)"
    using b by (simp add: handleSubmit_def v cf2_def Let_def split: option.splits)
  from s have s2: "formFields cf2 = formFields cf1" "submissions cf2 = submissions cf"
    "submitButton cf2 = submitButton cf" "resetButton cf2 = resetButton cf"
    "cf_toast cf2 = toast_show ''Please fix the errors in the form'' ''error'' (cf_toast cf)"
    by (simp_all add: cf2_def sameForm_def)
  show "fst (handleSubmit callSucceeds cf) = None"
    by (simp add: h)
  show "submissions (snd (handleSubmit callSucceeds cf)) = submissions cf"
    by (simp add: h s2 split: option.splits)
  show "map f_value (formFields (snd (handleSubmit callSucceeds cf))) = map f_value (formFields cf)"
    using sameForm_values(1) [OF s] by (simp add: h s2 split: option.splits)
  show "submitButton (snd (handleSubmit callSucceeds cf)) = submitButton cf"
    by (simp add: h s2 split: option.splits)
  show "resetButton (snd (handleSubmit callSucceeds cf)) = resetButton cf"
    by (simp add: h s2 split: option.splits)
  show "cf_toast (snd (handleSubmit callSucceeds cf)) =
           toast_show ''Please fix the errors in the form'' ''error'' (cf_toast cf)"
    by (simp add: h s2 split: option.splits)
qed

lemma handleSubmit_valid:
  assumes "allFieldsValid cf" and "submitButton cf = Some sb" and "resetButton cf = Some rb"
  shows "fst (handleSubmit callSucceeds cf) = None"
    and "controlsIdle (snd (handleSubmit callSucceeds cf))"
    and "submissions (snd (handleSubmit callSucceeds cf)) = submissions cf + 1"
    and "map f_value (formFields (snd (handleSubmit callSucceeds cf))) =
           (if callSucceeds then map f_defaultValue (formFields cf) else map f_value (formFields cf))"
    and "cf_toast (snd (handleSubmit callSucceeds cf)) =
           (if callSucceeds
            then toast_show ''Message sent successfully! I will get back to you soon.'' ''success''
                   (cf_toast cf)
            else toast_show ''Failed to send message. Please try again.'' ''error'' (cf_toast cf))"
    and "resetButton (snd (handleSubmit callSucceeds cf)) = Some (rb\<lparr>disabled := False\<rparr>)"
proof -
  obtain b cf1 where v: "validateAll [0..<length (formFields cf)] True cf = (b, cf1)"
    by (cases "validateAll [0..<length (formFields cf)] True cf")
  from validateAll_form [of cf] v assms(1) have b: "b" and s: "sameForm cf cf1"
    by simp_all
  from s assms have bt: "submitButton cf1 = Some sb" "resetButton cf1 = Some rb"
    "cf_toast cf1 = cf_toast cf" "submissions cf1 = submissions cf"
    by (simp_all add: sameForm_def)
  note vals = sameForm_values [OF s]
  show "fst (handleSubmit callSucceeds cf) = None"
    using b bt by (simp add: handleSubmit_def v setFormState_def Let_def form_reset_def)
  show "controlsIdle (snd (handleSubmit callSucceeds cf))"
    using b bt
    by (simp add: handleSubmit_def v setFormState_def Let_def form_reset_def controlsIdle_def)
  show "submissions (snd (handleSubmit callSucceeds cf)) = submissions cf + 1"
    using b bt by (simp add: handleSubmit_def v setFormState_def Let_def form_reset_def)
  show "map f_value (formFields (snd (handleSubmit callSucceeds cf))) =
           (if callSucceeds then map f_defaultValue (formFields cf) else map f_value (formFields cf))"
    using b bt vals
    by (simp add: handleSubmit_def v setFormState_def Let_def form_reset_def comp_def)
  show "cf_toast (snd (handleSubmit callSucceeds cf)) =
           (if callSucceeds
            then toast_show ''Message sent successfully! I will get back to you soon.'' ''success''
                   (cf_toast cf)
            else toast_show ''Failed to send message. Please try again.'' ''error'' (cf_toast cf))"
    using b bt by (simp add: handleSubmit_def v setFormState_def Let_def form_reset_def)
  show "resetButton (snd (handleSubmit callSucceeds cf)) = Some (rb\<lparr>disabled := False\<rparr>)"
    using b bt by (simp add: handleSubmit_def v setFormState_def Let_def form_reset_def)
qed

text \<open>
  C3. When every field validates, and the form has its submit and reset buttons and the
  page its toast element, \<open>handleSubmit\<close> finishes without an error in exactly one of
  two ways. If the simulated call succeeds, every field is back at its default value and
  the toast shows the success message; if it fails, every field value is as before and
  the toast shows the failure message. In both cases \<open>submitForm\<close> was called once, the
  two buttons end enabled, the submit button carries its idle label without the class
  \<open>loading\<close>, and the label of the reset button is the one it had.
\<close>

theorem submit_outcomes:
  assumes "allFieldsValid cf" and "submitButton cf \<noteq> None" and "resetButton cf \<noteq> None"
    and "element (cf_toast cf) \<noteq> None"
  shows "fst (handleSubmit callSucceeds cf) = None \<and>
         controlsIdle (snd (handleSubmit callSucceeds cf)) \<and>
         map_option innerHTML (resetButton (snd (handleSubmit callSucceeds cf))) =
           map_option innerHTML (resetButton cf) \<and>
         submissions (snd (handleSubmit callSucceeds cf)) = submissions cf + 1 \<and>
         (callSucceeds \<longrightarrow>
            successOutcome cf (snd (handleSubmit callSucceeds cf)) \<and>
            \<not> failureOutcome cf (snd (handleSubmit callSucceeds cf))) \<and>
         (\<not> callSucceeds \<longrightarrow>
            failureOutcome cf (snd (handleSubmit callSucceeds cf)) \<and>
            \<not> successOutcome cf (snd (handleSubmit callSucceeds cf)))"
proof -
  from assms(2,3) obtain sb rb where bt: "submitButton cf = Some sb" "resetButton cf = Some rb"
    by auto
  note r = handleSubmit_valid [OF assms(1) bt, of callSucceeds]
  have ok: "successOutcome cf (snd (handleSubmit callSucceeds cf)) \<and>
            \<not> failureOutcome cf (snd (handleSubmit callSucceeds cf))" if callSucceeds
  proof -
    from that r(4,5) toast_show_shows [OF assms(4), of _ "''success''"]
    have "successOutcome cf (snd (handleSubmit callSucceeds cf))"
      by (simp add: successOutcome_def)
    moreover have "\<not> failureOutcome cf (snd (handleSubmit callSucceeds cf))"
      using that r(5) toast_show_text
        [of "''Failed to send message. Please try again.''" "''toast-error''"
            "''Message sent successfully! I will get back to you soon.''" "''success''" "cf_toast cf"]
      by (auto simp: failureOutcome_def)
    ultimately show ?thesis by simp
  qed
  have ko: "failureOutcome cf (snd (handleSubmit callSucceeds cf)) \<and>
            \<not> successOutcome cf (snd (handleSubmit callSucceeds cf))" if "\<not> callSucceeds"
  proof -
    from that r(4,5) toast_show_shows [OF assms(4), of _ "''error''"]
    have "failureOutcome cf (snd (handleSubmit callSucceeds cf))"
      by (simp add: failureOutcome_def)
    moreover have "\<not> successOutcome cf (snd (handleSubmit callSucceeds cf))"
      using that r(5) toast_show_text
        [of "''Message sent successfully! I will get back to you soon.''" "''toast-success''"
            "''Failed to send message. Please try again.''" "''error''" "cf_toast cf"]
      by (auto simp: successOutcome_def)
    ultimately show ?thesis by simp
  qed
  from r(6) bt(2) have "map_option innerHTML (resetButton (snd (handleSubmit callSucceeds cf))) =
      map_option innerHTML (resetButton cf)"
    by simp
  with r(1,2,3) ok ko show ?thesis by blast
qed

lemma exampleForm_valid: "allFieldsValid (exampleForm (js ''user@example.com''))"
proof -
  have "trim (js ''Ada'') \<noteq> []" "trim (js ''Hello'') \<noteq> []"
    by (simp_all add: js_def trim_def isWhiteSpace_def)
  then show ?thesis
    by (simp add: allFieldsValid_def exampleForm_def textField_def fieldCheck_def Let_def
        trim_user example_email)
qed

theorem submit_outcomes_witness:
  "allFieldsValid (exampleForm (js ''user@example.com'')) \<and>
   submitButton (exampleForm (js ''user@example.com'')) \<noteq> None \<and>
   resetButton (exampleForm (js ''user@example.com'')) \<noteq> None \<and>
   element (cf_toast (exampleForm (js ''user@example.com''))) \<noteq> None \<and>
   successOutcome (exampleForm (js ''user@example.com''))
     (snd (handleSubmit True (exampleForm (js ''user@example.com'')))) \<and>
   failureOutcome (exampleForm (js ''user@example.com''))
     (snd (handleSubmit False (exampleForm (js ''user@example.com'')))) \<and>
   controlsIdle (snd (handleSubmit True (exampleForm (js ''user@example.com'')))) \<and>
   controlsIdle (snd (handleSubmit False (exampleForm (js ''user@example.com''))))"
proof -
  have h: "submitButton (exampleForm (js ''user@example.com'')) \<noteq> None"
    "resetButton (exampleForm (js ''user@example.com'')) \<noteq> None"
    "element (cf_toast (exampleForm (js ''user@example.com''))) \<noteq> None"
    by (simp_all add: exampleForm_def exampleToast_def)
  show ?thesis
    using exampleForm_valid h
      submit_outcomes [OF exampleForm_valid h, of True]
      submit_outcomes [OF exampleForm_valid h, of False]
    by simp
qed

lemma empty_not_email: "\<not> isValidEmail []"
  by (simp add: isValidEmail_def emailRegex_def)

text \<open>
  C10. An email field whose trimmed value is empty fails validation whether or not it is
  required: \<open>validateField\<close> returns false and marks the field with
  \<open>aria-invalid="true"\<close> and the class \<open>error\<close>. A form that contains such a field is
  not submitted: \<open>handleSubmit\<close> makes no call of \<open>submitForm\<close>, leaves the values and the
  buttons as they are, and shows the toast asking to fix the errors.
\<close>

theorem empty_email_blocks_submission:
  assumes "i < length (formFields cf)" and "f_type (formFields cf ! i) = ''email''"
    and "trim (f_value (formFields cf ! i)) = []"
  shows "\<not> fst (validateField i cf) \<and>
         f_ariaInvalid (formFields (snd (validateField i cf)) ! i) = Some ''true'' \<and>
         cl_contains ''error'' (f_classes (formFields (snd (validateField i cf)) ! i)) \<and>
         fst (handleSubmit callSucceeds cf) = None \<and>
         submissions (snd (handleSubmit callSucceeds cf)) = submissions cf \<and>
         map f_value (formFields (snd (handleSubmit callSucceeds cf))) = map f_value (formFields cf) \<and>
         submitButton (snd (handleSubmit callSucceeds cf)) = submitButton cf \<and>
         resetButton (snd (handleSubmit callSucceeds cf)) = resetButton cf \<and>
         cf_toast (snd (handleSubmit callSucceeds cf)) =
           toast_show ''Please fix the errors in the form'' ''error'' (cf_toast cf)"
proof -
  from assms(2,3) have fc: "fieldCheck (formFields cf ! i) = (False, ''Please enter a valid email address'')"
    by (simp add: fieldCheck_def Let_def empty_not_email)
  from fc have v: "validateField i cf =
      (False, setFieldValidity i False ''Please enter a valid email address'' cf)"
    by (simp add: validateField_def)
  from assms(1) have mark:
    "f_ariaInvalid (formFields (setFieldValidity i False ''Please enter a valid email address'' cf) ! i)
       = Some ''true''"
    "cl_contains ''error''
       (f_classes (formFields (setFieldValidity i False ''Please enter a valid email address'' cf) ! i))"
    by (simp_all add: setFieldValidity_def Let_def bool_str_def cl_toggle_force_def)
  from assms(1) fc have "\<not> allFieldsValid cf"
    by (auto simp: allFieldsValid_def list_all_length)
  from handleSubmit_blocked [OF this, of callSucceeds] v mark show ?thesis
    by simp
qed

theorem empty_email_blocks_submission_witness:
  "(1::nat) < length (formFields (exampleForm (js ''  ''))) \<and>
   f_type (formFields (exampleForm (js ''  '')) ! 1) = ''email'' \<and>
   \<not> f_required (formFields (exampleForm (js ''  '')) ! 1) \<and>
   trim (f_value (formFields (exampleForm (js ''  '')) ! 1)) = [] \<and>
   \<not> fst (validateField 1 (exampleForm (js ''  ''))) \<and>
   submissions (snd (handleSubmit True (exampleForm (js ''  '')))) = 0 \<and>
   toastShows ''Please fix the errors in the form'' ''toast-error''
     (cf_toast (snd (handleSubmit True (exampleForm (js ''  '')))))"
proof -
  have h: "(1::nat) < length (formFields (exampleForm (js ''  '')))"
    "f_type (formFields (exampleForm (js ''  '')) ! 1) = ''email''"
    "trim (f_value (formFields (exampleForm (js ''  '')) ! 1)) = []"
    by (simp_all add: exampleForm_def textField_def js_def trim_def isWhiteSpace_def)
  have r: "\<not> f_required (formFields (exampleForm (js ''  '')) ! 1)"
    "submissions (exampleForm (js ''  '')) = 0"
    "element (cf_toast (exampleForm (js ''  ''))) \<noteq> None"
    by (simp_all add: exampleForm_def textField_def exampleToast_def)
  from toast_show_shows [OF r(3), of "''Please fix the errors in the form''" "''error''"]
  have t: "toastShows ''Please fix the errors in the form'' ''toast-error''
     (toast_show ''Please fix the errors in the form'' ''error'' (cf_toast (exampleForm (js ''  ''))))"
    by simp
  show ?thesis
    using h r t empty_email_blocks_submission [OF h, of True] by simp
qed

section \<open>TabManager: the claim\<close>

lemma upd_length [simp]: "length (upd i f xs) = length xs"
  by (simp add: upd_def)

lemma upd_nth: "j < length xs \<Longrightarrow> upd i f xs ! j = (if j = i then f (xs ! j) else xs ! j)"
  by (simp add: upd_def)

lemma fold_upd_length [simp]: "length (fold (\<lambda>i. upd i f) ns d) = length d"
  by (induction ns arbitrary: d) simp_all

lemma fold_upd_other:
  "j \<notin> set ns \<Longrightarrow> j < length d \<Longrightarrow> fold (\<lambda>i. upd i f) ns d ! j = d ! j"
  by (induction ns arbitrary: d) (simp_all add: upd_nth)

lemma fold_upd_member:
  assumes "\<And>x. f (f x) = f x"
  shows "j \<in> set ns \<Longrightarrow> j < length d \<Longrightarrow> fold (\<lambda>i. upd i f) ns d ! j = f (d ! j)"
proof (induction ns arbitrary: d)
  case Nil
  then show ?case by simp
next
  case (Cons i ns)
  show ?case
  proof (cases "j \<in> set ns")
    case True
    with Cons.IH [of "upd i f d"] Cons.prems(2)
    have "fold (\<lambda>i. upd i f) ns (upd i f d) ! j = f (upd i f d ! j)" by simp
    with Cons.prems(2) assms show ?thesis by (simp add: upd_nth)
  next
    case False
    with Cons.prems have ji: "j = i" by simp
    from False Cons.prems(2) have "fold (\<lambda>i. upd i f) ns (upd i f d) ! j = upd i f d ! j"
      by (simp add: fold_upd_other)
    with ji Cons.prems(2) show ?thesis by (simp add: upd_nth)
  qed
qed

lemma fold_cond_upd:
  "fold (\<lambda>i d. if P i then upd i f d else d) ns d = fold (\<lambda>i. upd i f) (filter P ns) d"
  by (induction ns arbitrary: d) simp_all

text \<open>A projection that an update leaves alone is left alone by the whole loop.\<close>

lemma upd_keeps:
  assumes "\<And>x. g (f x) = g x"
  shows "map g (upd i f d) = map g d"
proof (cases "i < length d")
  case True
  then show ?thesis
    by (simp add: upd_def map_update assms list_update_same_conv)
next
  case False
  then show ?thesis by (simp add: upd_def list_update_beyond)
qed

lemma fold_upd_keeps:
  assumes "\<And>x. g (f x) = g x"
  shows "map g (fold (\<lambda>i. upd i f) ns d) = map g d"
proof -
  have step: "map g (upd i f d) = map g d" for i d
    by (rule upd_keeps) (rule assms)
  show ?thesis
  proof (induction ns arbitrary: d)
    case Nil
    then show ?case by simp
  next
    case (Cons i ns)
    have "map g (fold (\<lambda>i. upd i f) (i # ns) d) = map g (fold (\<lambda>i. upd i f) ns (upd i f d))"
      by simp
    also have "\<dots> = map g (upd i f d)" by (rule Cons.IH)
    also have "\<dots> = map g d" by (rule step)
    finally show ?case .
  qed
qed

lemma getElementById_cong:
  assumes "map el_id d = map el_id d'"
  shows "getElementById d key = getElementById d' key"
proof -
  from assms have l: "length d = length d'" by (rule map_eq_imp_length_eq)
  have "el_id (d ! i) = el_id (d' ! i)" if "i < length d" for i
  proof -
    from assms have "map el_id d ! i = map el_id d' ! i" by simp
    with that l show ?thesis by simp
  qed
  then have "filter (\<lambda>i. el_id (d ! i) = Some key) [0..<length d] =
             filter (\<lambda>i. el_id (d' ! i) = Some key) [0..<length d]"
    by (intro filter_cong) auto
  with l show ?thesis by (simp add: getElementById_def)
qed

lemma getElementById_Some:
  assumes "getElementById doc key = Some p"
  shows "p < length doc \<and> el_id (doc ! p) = Some key"
proof -
  from assms obtain rest where
    f: "filter (\<lambda>i. el_id (doc ! i) = Some key) [0..<length doc] = p # rest"
    by (auto simp: getElementById_def split: if_splits list.splits)
  then have "p \<in> set (filter (\<lambda>i. el_id (doc ! i) = Some key) [0..<length doc])"
    by simp
  then show ?thesis by simp
qed

lemma getElementById_unique:
  assumes "validIds doc" and "q < length doc" and "el_id (doc ! q) = Some key"
  shows "getElementById doc key = Some q"
proof -
  from assms have ne: "key \<noteq> []"
    by (auto simp: validIds_def)
  have only: "i = q" if "i < length doc" "el_id (doc ! i) = Some key" for i
    using assms that by (auto simp: validIds_def)
  from assms(2,3) have "q \<in> set (filter (\<lambda>i. el_id (doc ! i) = Some key) [0..<length doc])"
    by simp
  then obtain x rest where
    f: "filter (\<lambda>i. el_id (doc ! i) = Some key) [0..<length doc] = x # rest"
    by (cases "filter (\<lambda>i. el_id (doc ! i) = Some key) [0..<length doc]") auto
  then have "x \<in> set (filter (\<lambda>i. el_id (doc ! i) = Some key) [0..<length doc])"
    by simp
  then have "x = q" using only by simp
  with f ne show ?thesis by (simp add: getElementById_def)
qed

lemma removeActive_idem: "removeActive (removeActive e) = removeActive e"
  by (simp add: removeActive_def cl_remove_def)

lemma isActive_classes:
  assumes "map el_classes d = map el_classes d'" and "j < length d"
  shows "isActive d j = isActive d' j"
proof -
  from assms(1) have l: "length d = length d'" by (rule map_eq_imp_length_eq)
  from assms(1) have "map el_classes d ! j = map el_classes d' ! j" by simp
  with assms(2) l show ?thesis by (simp add: isActive_def)
qed

lemma fold_removeActive:
  assumes "j < length d"
  shows "isActive (fold (\<lambda>i. upd i removeActive) ns d) j = (j \<notin> set ns \<and> isActive d j)"
proof (cases "j \<in> set ns")
  case True
  from fold_upd_member [of removeActive, OF removeActive_idem True assms]
  have "fold (\<lambda>i. upd i removeActive) ns d ! j = removeActive (d ! j)" .
  with True show ?thesis by (simp add: isActive_def removeActive_def)
next
  case False
  with assms show ?thesis by (simp add: isActive_def fold_upd_other)
qed

lemma upd_addActive:
  assumes "j < length d"
  shows "isActive (upd i addActive d) j = (j = i \<or> isActive d j)"
  using assms by (auto simp: isActive_def upd_nth addActive_def)

lemma activateTab_elements:
  assumes g: "tabGroup doc activeLink allLinks allPanes" and j: "j < length doc"
  shows "isActive (activateTab activeLink allLinks allPanes dataAttribute doc) j =
           (lookupPane doc activeLink dataAttribute = Some j \<or>
            (j \<notin> set allPanes \<and> (j = activeLink \<or> (j \<notin> set allLinks \<and> isActive doc j))))"
proof -
  define d1 where "d1 = fold (\<lambda>tab. upd tab removeActive) allLinks doc"
  define d2 where "d2 = upd activeLink addActive d1"
  define d3 where "d3 = fold (\<lambda>pane. upd pane removeActive) allPanes d2"
  have len: "length d1 = length doc" "length d2 = length doc" "length d3 = length doc"
    by (simp_all add: d1_def d2_def d3_def)
  from g have al: "activeLink < length doc"
    by (auto simp: tabGroup_def list_all_iff)
  have a1: "isActive d1 j = (j \<notin> set allLinks \<and> isActive doc j)"
    unfolding d1_def using j by (rule fold_removeActive)
  have a2: "isActive d2 j = (j = activeLink \<or> isActive d1 j)"
    unfolding d2_def using j len(1) by (simp add: upd_addActive)
  have a3: "isActive d3 j = (j \<notin> set allPanes \<and> isActive d2 j)"
    unfolding d3_def using j len(2) by (simp add: fold_removeActive)
  have ids: "map el_id d3 = map el_id doc"
    unfolding d3_def d2_def d1_def
    by (simp add: fold_upd_keeps upd_keeps removeActive_def addActive_def)
  have attrs: "map el_attrs d3 = map el_attrs doc"
    unfolding d3_def d2_def d1_def
    by (simp add: fold_upd_keeps upd_keeps removeActive_def addActive_def)
  then have "map el_attrs d3 ! activeLink = map el_attrs doc ! activeLink" by simp
  with al len(3) have "el_attrs (d3 ! activeLink) = el_attrs (doc ! activeLink)" by simp
  then have t: "targetId d3 activeLink dataAttribute = targetId doc activeLink dataAttribute"
    by (simp add: targetId_def)
  have look: "getElementById d3 (targetId d3 activeLink dataAttribute) =
              lookupPane doc activeLink dataAttribute"
    unfolding t lookupPane_def using ids by (rule getElementById_cong)
  show ?thesis
  proof (cases "lookupPane doc activeLink dataAttribute")
    case None
    with look have "activateTab activeLink allLinks allPanes dataAttribute doc = d3"
      by (simp add: activateTab_def Let_def d1_def d2_def d3_def)
    with None a1 a2 a3 show ?thesis by simp
  next
    case (Some q)
    define d4 where "d4 = upd q addActive d3"
    define d5 where "d5 = upd q (setAriaHidden ''false'') d4"
    from Some look have r: "activateTab activeLink allLinks allPanes dataAttribute doc =
        fold (\<lambda>pane d. if pane \<noteq> q then upd pane (setAriaHidden ''true'') d else d) allPanes d5"
      by (simp add: activateTab_def Let_def d1_def d2_def d3_def d4_def d5_def)
    have "map el_classes
            (fold (\<lambda>pane d. if pane \<noteq> q then upd pane (setAriaHidden ''true'') d else d) allPanes d5) =
          map el_classes d4"
      unfolding fold_cond_upd d5_def
      by (simp add: fold_upd_keeps upd_keeps setAriaHidden_def)
    with r have c: "map el_classes (activateTab activeLink allLinks allPanes dataAttribute doc) =
        map el_classes d4"
      by simp
    have l4: "length d4 = length doc" by (simp add: d4_def len)
    from c have "length (activateTab activeLink allLinks allPanes dataAttribute doc) = length d4"
      by (rule map_eq_imp_length_eq)
    with l4 j have "j < length (activateTab activeLink allLinks allPanes dataAttribute doc)"
      by simp
    from isActive_classes [OF c this]
    have "isActive (activateTab activeLink allLinks allPanes dataAttribute doc) j = isActive d4 j" .
    also have "\<dots> = (j = q \<or> isActive d3 j)"
      unfolding d4_def using j len(3) by (simp add: upd_addActive)
    finally show ?thesis using Some a1 a2 a3 by auto
  qed
qed

lemma filter_single:
  assumes "distinct xs" and "q \<in> set xs" and "\<And>x. x \<in> set xs \<Longrightarrow> P x = (x = q)"
  shows "filter P xs = [q]"
  using assms
proof (induction xs)
  case Nil
  then show ?case by simp
next
  case (Cons x xs)
  show ?case
  proof (cases "x = q")
    case True
    with Cons.prems(1) have "q \<notin> set xs" by simp
    with Cons.prems(3) have "\<forall>y\<in>set xs. \<not> P y" by auto
    then have "filter P xs = []" by (simp add: filter_empty_conv)
    moreover from True Cons.prems(3) have "P x" by simp
    ultimately show ?thesis using True by simp
  next
    case False
    with Cons.prems have "q \<in> set xs" "distinct xs" "\<not> P x" by auto
    with Cons.IH Cons.prems(3) show ?thesis by simp
  qed
qed

lemma tabsPage_ok: "tabGroup tabsPage 0 [0, 1] [2]" "tabGroup tabsPage 1 [0, 1] [2]" "validIds tabsPage"
  by (simp_all add: tabGroup_def validIds_def tabsPage_def)

lemma plainPage_ok: "tabGroup plainPage 0 [0] [1]" "validIds plainPage"
  by (simp_all add: tabGroup_def validIds_def plainPage_def)

text \<open>
  What \<open>activateTab\<close> marks, in a document with valid identifiers, with \<open>key\<close> the
  identifier it looks up: the clicked link; every pane whose identifier is \<open>key\<close>; and
  every other link whose identifier is \<open>key\<close>.
\<close>

lemma activateTab_markers:
  assumes "tabGroup doc activeLink allLinks allPanes" and "validIds doc"
  shows
    "isActive (activateTab activeLink allLinks allPanes dataAttribute doc) activeLink \<and>
     (\<forall>q\<in>set allPanes.
        isActive (activateTab activeLink allLinks allPanes dataAttribute doc) q =
          (el_id (doc ! q) = Some (targetId doc activeLink dataAttribute))) \<and>
     (\<forall>l\<in>set allLinks.
        isActive (activateTab activeLink allLinks allPanes dataAttribute doc) l =
          (l = activeLink \<or> el_id (doc ! l) = Some (targetId doc activeLink dataAttribute))) \<and>
     ((\<exists>q\<in>set allPanes. el_id (doc ! q) = Some (targetId doc activeLink dataAttribute)) \<longrightarrow>
        (\<exists>q\<in>set allPanes.
           activeOf (activateTab activeLink allLinks allPanes dataAttribute doc) allPanes = [q] \<and>
           el_id (doc ! q) = Some (targetId doc activeLink dataAttribute)) \<and>
        activeOf (activateTab activeLink allLinks allPanes dataAttribute doc) allLinks = [activeLink]) \<and>
     ((\<forall>q\<in>set allPanes. el_id (doc ! q) \<noteq> Some (targetId doc activeLink dataAttribute)) \<longrightarrow>
        activeOf (activateTab activeLink allLinks allPanes dataAttribute doc) allPanes = [] \<and>
        ((\<forall>l\<in>set allLinks. l \<noteq> activeLink \<longrightarrow>
            el_id (doc ! l) \<noteq> Some (targetId doc activeLink dataAttribute)) \<longrightarrow>
         activeOf (activateTab activeLink allLinks allPanes dataAttribute doc) allLinks = [activeLink]))"
proof -
  define d' where "d' = activateTab activeLink allLinks allPanes dataAttribute doc"
  define key where "key = targetId doc activeLink dataAttribute"
  from assms(1) have wf:
    "\<And>l. l \<in> set allLinks \<Longrightarrow> l < length doc" "\<And>q. q \<in> set allPanes \<Longrightarrow> q < length doc"
    "distinct allLinks" "distinct allPanes"
    "\<And>l. l \<in> set allLinks \<Longrightarrow> l \<notin> set allPanes" "activeLink \<in> set allLinks"
    by (auto simp: tabGroup_def list_all_iff)
  have found: "(lookupPane doc activeLink dataAttribute = Some j) = (el_id (doc ! j) = Some key)"
    if "j < length doc" for j
    using that assms(2) getElementById_Some [of doc key j] getElementById_unique [of doc j key]
    by (auto simp: lookupPane_def key_def)
  have links: "isActive d' l = (l = activeLink \<or> el_id (doc ! l) = Some key)"
    if "l \<in> set allLinks" for l
    using that wf(1,5) activateTab_elements [OF assms(1), of l dataAttribute] found [of l]
    by (auto simp: d'_def)
  have panes: "isActive d' q = (el_id (doc ! q) = Some key)" if "q \<in> set allPanes" for q
    using that wf(2) activateTab_elements [OF assms(1), of q dataAttribute] found [of q]
    by (auto simp: d'_def)
  have single: "x = y" if "x < length doc" "y < length doc"
    "el_id (doc ! x) = Some key" "el_id (doc ! y) = Some key" for x y
    using that assms(2) by (auto simp: validIds_def)
  have one: "(\<exists>q\<in>set allPanes. activeOf d' allPanes = [q] \<and> el_id (doc ! q) = Some key) \<and>
             activeOf d' allLinks = [activeLink]"
    if "\<exists>q\<in>set allPanes. el_id (doc ! q) = Some key"
  proof -
    from that obtain q where q: "q \<in> set allPanes" "el_id (doc ! q) = Some key" by blast
    have "isActive d' x = (x = q)" if "x \<in> set allPanes" for x
      using that q panes [of x] single [of x q] wf(2) by auto
    with wf(4) q(1) have p: "activeOf d' allPanes = [q]"
      unfolding activeOf_def by (intro filter_single) auto
    have "isActive d' l = (l = activeLink)" if "l \<in> set allLinks" for l
    proof -
      have "el_id (doc ! l) \<noteq> Some key"
        using that q single [of l q] wf(1,2,5) by auto
      with links [OF that] show ?thesis by simp
    qed
    with wf(3,6) have "activeOf d' allLinks = [activeLink]"
      unfolding activeOf_def by (intro filter_single) auto
    with p q show ?thesis by blast
  qed
  have zero: "activeOf d' allPanes = [] \<and>
      ((\<forall>l\<in>set allLinks. l \<noteq> activeLink \<longrightarrow> el_id (doc ! l) \<noteq> Some key) \<longrightarrow>
         activeOf d' allLinks = [activeLink])"
    if n: "\<forall>q\<in>set allPanes. el_id (doc ! q) \<noteq> Some key"
  proof -
    from n panes have p: "activeOf d' allPanes = []"
      by (simp add: activeOf_def filter_empty_conv)
    have "activeOf d' allLinks = [activeLink]"
      if o: "\<forall>l\<in>set allLinks. l \<noteq> activeLink \<longrightarrow> el_id (doc ! l) \<noteq> Some key"
    proof -
      have "isActive d' l = (l = activeLink)" if "l \<in> set allLinks" for l
        using that o links [of l] by auto
      with wf(3,6) show ?thesis
        unfolding activeOf_def by (intro filter_single) auto
    qed
    with p show ?thesis by blast
  qed
  from links [OF wf(6)] have "isActive d' activeLink" by simp
  with links panes one zero show ?thesis
    unfolding d'_def key_def by blast
qed

lemma activateTab_markers_examples:
  "tabGroup tabsPage 1 [0, 1] [2] \<and> validIds tabsPage \<and>
   el_id (tabsPage ! 2) = Some (targetId tabsPage 1 ''data-category'') \<and>
   activeOf (activateTab 1 [0, 1] [2] ''data-category'' tabsPage) [2] = [2] \<and>
   activeOf (activateTab 1 [0, 1] [2] ''data-category'' tabsPage) [0, 1] = [1] \<and>
   tabGroup plainPage 0 [0] [1] \<and> validIds plainPage \<and>
   el_id (plainPage ! 1) \<noteq> Some (targetId plainPage 0 ''data-category'') \<and>
   activeOf (activateTab 0 [0] [1] ''data-category'' plainPage) [1] = [] \<and>
   activeOf (activateTab 0 [0] [1] ''data-category'' plainPage) [0] = [0]"
proof -
  have a: "el_id (tabsPage ! 2) = Some (targetId tabsPage 1 ''data-category'')"
    by (simp add: tabsPage_def targetId_def)
  have b: "el_id (plainPage ! 1) \<noteq> Some (targetId plainPage 0 ''data-category'')"
    by (simp add: plainPage_def targetId_def)
  show ?thesis
    using a b tabsPage_ok(2,3) plainPage_ok
      activateTab_markers [OF tabsPage_ok(2,3), of "''data-category''"]
      activateTab_markers [OF plainPage_ok, of "''data-category''"]
    by simp
qed

text \<open>
  C5. The claim is right and \<open>activateTab\<close> misses it in one case. It removes \<open>active\<close>
  from every link and adds it to the clicked one, then adds \<open>active\<close> to whatever element
  \<open>document.getElementById\<close> returns, without a check that it is a pane of the group.
  On \<open>tabsPage\<close>, a tab group with valid identifiers (\<open>tabsPage_ok\<close>), the first link
  points at the identifier \<open>branding\<close> and the second link carries it: after a click on
  the first link both links are active, and no pane is.
\<close>

theorem activateTab_marks_second_link:
  "activeOf (activateTab 0 [0, 1] [2] ''data-category'' tabsPage) [0, 1] = [0, 1] \<and>
   activeOf (activateTab 0 [0, 1] [2] ''data-category'' tabsPage) [2] = []"
  by (simp add: activeOf_def isActive_def activateTab_def Let_def upd_def targetId_def
      getElementById_def removeActive_def addActive_def setAriaHidden_def tabsPage_def
      cl_contains_def cl_add_def cl_remove_def)

end
